theory Spec2Isabelle
  imports Complex_Main "HOL-Library.AList" "HOL-Library.Log_Nat"
begin

section \<open>Strings, numbers and paths as the script uses them\<close>

text \<open>
  A Python \<open>str\<close> is modelled as a \<open>string\<close> whose characters stand for the code points
  below 256; text with larger code points is outside the model. Python integers that
  count things are \<open>nat\<close>.
\<close>

definition digit :: "nat \<Rightarrow> char" where
  "digit d = ''0123456789'' ! d"

text \<open>\<open>str(n)\<close> for a non-negative integer: decimal, no leading zero.\<close>

function str_nat :: "nat \<Rightarrow> string" where
  "str_nat n = (if n < 10 then [digit n] else str_nat (n div 10) @ [digit (n mod 10)])"
  by pat_completeness auto
termination
  by (relation "measure id") auto

declare str_nat.simps [simp del]

text \<open>\<open>s.endswith(suf)\<close>.\<close>

definition endswith :: "string \<Rightarrow> string \<Rightarrow> bool" where
  "endswith s suf = (length suf \<le> length s \<and> drop (length s - length suf) s = suf)"

text \<open>
  \<open>str.isspace\<close> on one character: the ASCII white space (tab to carriage return, the
  separators \<open>0x1c\<close> to \<open>0x1f\<close>, the blank) and the two Latin-1 ones (\<open>0x85\<close>, \<open>0xa0\<close>).
\<close>

definition isspace :: "char \<Rightarrow> bool" where
  "isspace c = (let n = (of_char c :: nat) in
     (9 \<le> n \<and> n \<le> 13) \<or> (28 \<le> n \<and> n \<le> 32) \<or> n = 133 \<or> n = 160)"

text \<open>\<open>s.strip()\<close>: leading and trailing white space removed.\<close>

definition strip :: "string \<Rightarrow> string" where
  "strip s = rev (dropWhile isspace (rev (dropWhile isspace s)))"

text \<open>\<open>s.lower()\<close>, character by character (ASCII and Latin-1 capitals).\<close>

definition lower_char :: "char \<Rightarrow> char" where
  "lower_char c = (let n = (of_char c :: nat) in
     if (65 \<le> n \<and> n \<le> 90) \<or> (192 \<le> n \<and> n \<le> 222 \<and> n \<noteq> 215) then char_of (n + 32) else c)"

definition lower :: "string \<Rightarrow> string" where
  "lower s = map lower_char s"

text \<open>
  \<open>pathlib\<close>: \<open>name.rfind('.')\<close>, then \<open>Path.suffix\<close> and \<open>Path.stem\<close> of a file name.
  The last dot splits the name unless it is the first or the last character.
\<close>

fun rfind_dot :: "string \<Rightarrow> nat option" where
  "rfind_dot [] = None"
| "rfind_dot (c # cs) =
     (case rfind_dot cs of
        Some i \<Rightarrow> Some (Suc i)
      | None \<Rightarrow> if c = CHR ''.'' then Some 0 else None)"

definition suffix_of :: "string \<Rightarrow> string" where
  "suffix_of name =
     (case rfind_dot name of
        Some i \<Rightarrow> if 0 < i \<and> i < length name - 1 then drop i name else []
      | None \<Rightarrow> [])"

definition stem :: "string \<Rightarrow> string" where
  "stem name =
     (case rfind_dot name of
        Some i \<Rightarrow> if 0 < i \<and> i < length name - 1 then take i name else name
      | None \<Rightarrow> name)"

text \<open>
  A path below the download directory is the list of its components:
  \<open>download_dir / inn / year / name\<close> is \<open>[inn, year, name]\<close>. Identifiers, years and
  file names are taken to be single components (not empty, no slash).
\<close>

type_synonym path = "string list"

text \<open>\<open>str(path)\<close>, given the name of the download directory.\<close>

definition str_path :: "string \<Rightarrow> path \<Rightarrow> string" where
  "str_path dir p = foldl (\<lambda>acc c. acc @ ''/'' @ c) dir p"

subsection \<open>Facts about the decimal rendering\<close>

lemma digit_inj: "a < 10 \<Longrightarrow> b < 10 \<Longrightarrow> digit a = digit b \<Longrightarrow> a = b"
proof -
  assume a: "a < 10" and b: "b < 10" and e: "digit a = digit b"
  have d: "distinct ''0123456789''" by simp
  have "a < length ''0123456789''" and "b < length ''0123456789''" using a b by simp_all
  with d e show "a = b" unfolding digit_def by (simp only: nth_eq_iff_index_eq)
qed

lemma str_nat_nonempty: "str_nat n \<noteq> []"
  by (subst str_nat.simps) simp

lemma str_nat_inj: "str_nat m = str_nat n \<Longrightarrow> m = n"
proof (induction m arbitrary: n rule: str_nat.induct)
  case (1 m)
  show ?case
  proof (cases "m < 10")
    case True
    then have sm: "str_nat m = [digit m]" by (subst str_nat.simps) simp
    show ?thesis
    proof (cases "n < 10")
      case True
      then have "str_nat n = [digit n]" by (subst str_nat.simps) simp
      with sm "1.prems" have "digit m = digit n" by simp
      with \<open>m < 10\<close> True show ?thesis by (rule digit_inj)
    next
      case False
      then have "str_nat n = str_nat (n div 10) @ [digit (n mod 10)]"
        by (subst str_nat.simps) simp
      with sm "1.prems" have "str_nat (n div 10) = []" by simp
      then show ?thesis using str_nat_nonempty by blast
    qed
  next
    case False
    then have sm: "str_nat m = str_nat (m div 10) @ [digit (m mod 10)]"
      by (subst str_nat.simps) simp
    show ?thesis
    proof (cases "n < 10")
      case True
      then have "str_nat n = [digit n]" by (subst str_nat.simps) simp
      with sm "1.prems" have "str_nat (m div 10) = []" by simp
      then show ?thesis using str_nat_nonempty by blast
    next
      case nbig: False
      then have sn: "str_nat n = str_nat (n div 10) @ [digit (n mod 10)]"
        by (subst str_nat.simps) simp
      from sm sn "1.prems" have e1: "str_nat (m div 10) = str_nat (n div 10)"
        and e2: "digit (m mod 10) = digit (n mod 10)" by simp_all
      from "1.IH" [OF False e1] have d: "m div 10 = n div 10" .
      have "m mod 10 = n mod 10" using e2 by (intro digit_inj) simp_all
      with d show ?thesis by (metis div_mult_mod_eq)
    qed
  qed
qed

lemma stem_suffix: "stem name @ suffix_of name = name"
  by (simp add: stem_def suffix_of_def split: option.splits)

section \<open>The data model and the world the script runs in\<close>

text \<open>
  Python exceptions, all of them subclasses of \<open>Exception\<close>, each with the text that
  \<open>str(e)\<close> gives. Interrupts (\<open>KeyboardInterrupt\<close>), which no \<open>except Exception\<close>
  catches, are outside the model.
\<close>

datatype exn =
    TimeoutException string
  | WebDriverException string
  | OSError string
  | BadZipFile string
  | ZeroDivisionError string
  | RetryError string
  | KeyError string

fun str_exn :: "exn \<Rightarrow> string" where
  "str_exn (TimeoutException m) = m"
| "str_exn (WebDriverException m) = m"
| "str_exn (OSError m) = m"
| "str_exn (BadZipFile m) = m"
| "str_exn (ZeroDivisionError m) = m"
| "str_exn (RetryError m) = m"
| "str_exn (KeyError m) = m"

text \<open>The dataclass \<open>DownloadResult\<close>; the time stamp is the clock's reading.\<close>

record DownloadResult =
  inn :: string
  year :: "string option"
  success :: bool
  file_path :: "string option"
  error_message :: "string option"
  timestamp :: nat

text \<open>
  A file on disk, as far as the script looks at it: its size, and what \<open>zipfile\<close> finds
  when it opens it. An entry of an archive has a name and the outcome of reading it
  through: intact, a CRC-32 that does not match (\<open>BadZipFile\<close> inside \<open>testzip\<close>), or
  another error (encrypted entry, broken compressed stream).
\<close>

datatype entry_check = Intact | BadChecksum | ReadFails exn

datatype zip_entry = ZipEntry (entry_name: string) (integrity: entry_check)

datatype archive = NotAnArchive | Archive "zip_entry list"

record disk_file =
  st_size :: nat
  zip_view :: archive

text \<open>
  The browser is driven through commands; what each one meets on the site is not the
  script's to decide, so the world holds the site's answers: to the n-th command
  issued, how long it took, whether it raised, the texts of the elements found, and the
  downloads it started (each a file that lands in the download directory at a given
  time).
\<close>

datatype control =
    ResultsItem | InnEntries | ReportsWrapper | DownloadAsTable | PopupButtons
  | SelectAll | DownloadArchive | YearButton string | Entry string

datatype action =
    Launch | ExecuteScript | Quit | Get string
  | UntilPresent control | UntilClickable control | FindElements control | Click control

record response =
  took :: nat
  raised :: "exn option"
  texts :: "string list"
  starts :: "(nat \<times> string \<times> disk_file) list"

datatype level = INFO | WARNING | ERROR

text \<open>
  The world: the clock in milliseconds, the files below the download directory (in
  listing order), the downloads on their way, the site, the commands issued so far, the
  draws of \<open>random.uniform\<close>, the log, the text files outside the download directory
  (the input list, the report), what \<open>print\<close> writes to the standard output (the lines
  of the logger, which go to the log file and to the standard output alike, are kept in
  the log only), the name of the download
  directory, and the local date and time that \<open>strftime\<close> prints for a reading of the
  clock.
\<close>

record world =
  clock :: nat
  fs :: "(path \<times> disk_file) list"
  arriving :: "(nat \<times> string \<times> disk_file) list"
  site :: "nat \<Rightarrow> action \<Rightarrow> response"
  history :: "action list"
  jitter :: "nat \<Rightarrow> nat"
  logged :: "(level \<times> string) list"
  text_files :: "string \<Rightarrow> string option"
  stdout :: "string list"
  download_dir :: string
  calendar :: "nat \<Rightarrow> string"

text \<open>
  A statement of the script is a function from the world to a result or an exception,
  and the world after it.
\<close>

type_synonym 'a io = "world \<Rightarrow> (exn + 'a) \<times> world"

definition return :: "'a \<Rightarrow> 'a io" where
  "return v w = (Inr v, w)"

definition raise :: "exn \<Rightarrow> 'a io" where
  "raise e w = (Inl e, w)"

definition bind_io :: "'a io \<Rightarrow> ('a \<Rightarrow> 'b io) \<Rightarrow> 'b io" where
  "bind_io m f w = (case m w of (Inl e, w') \<Rightarrow> (Inl e, w') | (Inr v, w') \<Rightarrow> f v w')"

text \<open>\<open>try: m except Exception as e: h e\<close>.\<close>

definition try_except :: "'a io \<Rightarrow> (exn \<Rightarrow> 'a io) \<Rightarrow> 'a io" where
  "try_except m h w = (case m w of (Inl e, w') \<Rightarrow> h e w' | (Inr v, w') \<Rightarrow> (Inr v, w'))"

subsection \<open>Time, the disk and the browser\<close>

text \<open>
  Files the browser is downloading land on disk as time passes: \<open>settle\<close> writes those
  that are due, and every advance of the clock ends with it.
\<close>

definition due :: "nat \<Rightarrow> nat \<times> string \<times> disk_file \<Rightarrow> bool" where
  "due t a = (fst a \<le> t)"

definition land :: "(path \<times> disk_file) list \<Rightarrow> nat \<times> string \<times> disk_file \<Rightarrow> (path \<times> disk_file) list" where
  "land disk a = AList.update [fst (snd a)] (snd (snd a)) disk"

definition settle :: "world \<Rightarrow> world" where
  "settle w = w\<lparr>fs := foldl land (fs w) (filter (due (clock w)) (arriving w)),
               arriving := filter (\<lambda>a. \<not> due (clock w) a) (arriving w)\<rparr>"

definition advance :: "nat \<Rightarrow> world \<Rightarrow> world" where
  "advance ms w = settle (w\<lparr>clock := clock w + ms\<rparr>)"

text \<open>\<open>time.sleep(seconds)\<close>, here in milliseconds.\<close>

definition sleep :: "nat \<Rightarrow> unit io" where
  "sleep ms w = (Inr (), advance ms w)"

text \<open>\<open>random_delay(min_seconds, max_seconds)\<close>: a draw between the bounds, slept.\<close>

definition random_delay :: "nat \<Rightarrow> nat \<Rightarrow> unit io" where
  "random_delay min_seconds max_seconds w =
     (let delay = min_seconds * 1000
                  + jitter w (clock w) mod ((max_seconds - min_seconds) * 1000 + 1)
      in sleep delay w)"

text \<open>One command to the browser: the site's answer to it, in the world.\<close>

definition command :: "action \<Rightarrow> string list io" where
  "command a w =
     (let r = site w (length (history w)) a;
          w' = advance (took r) (w\<lparr>history := history w @ [a],
                                    arriving := arriving w @ starts r\<rparr>)
      in (case raised r of Some e \<Rightarrow> Inl e | None \<Rightarrow> Inr (texts r), w'))"

text \<open>\<open>self.logger.info\<close>, \<open>.warning\<close>, \<open>.error\<close>: one more line in the log.\<close>

definition log_line :: "level \<Rightarrow> string \<Rightarrow> world \<Rightarrow> world" where
  "log_line l msg w = w\<lparr>logged := logged w @ [(l, msg)]\<rparr>"

definition logger :: "level \<Rightarrow> string \<Rightarrow> unit io" where
  "logger l msg w = (Inr (), log_line l msg w)"

definition path_exists :: "(path \<times> disk_file) list \<Rightarrow> path \<Rightarrow> bool" where
  "path_exists disk p = (map_of disk p \<noteq> None)"

text \<open>\<open>datetime.now()\<close>.\<close>

definition now :: "nat io" where
  "now w = (Inr (clock w), w)"

lemma clock_settle [simp]: "clock (settle w) = clock w"
  by (simp add: settle_def)

lemma clock_advance [simp]: "clock (advance ms w) = clock w + ms"
  by (simp add: advance_def)

section \<open>Detecting, relocating and verifying a download\<close>

subsection \<open>\<open>_get_download_files\<close> and \<open>_wait_for_download\<close>\<close>

text \<open>The names of the files directly in the download directory.\<close>

definition top_level_names :: "(path \<times> disk_file) list \<Rightarrow> string list" where
  "top_level_names disk =
     concat (map (\<lambda>(p, f). case p of [] \<Rightarrow> [] | n # rest \<Rightarrow> if rest = [] then [n] else []) disk)"

definition get_download_files :: "string list io" where
  "get_download_files w = (Inr (top_level_names (fs w)), w)"

text \<open>
  The polling loop of \<open>_wait_for_download\<close>. The listing of the directory is
  \<open>top_level_names (fs w)\<close> and the two \<open>time.sleep\<close> calls advance the clock by 2000 and
  1000 milliseconds. The loop ends because the clock moves on.
\<close>

function wait_loop :: "nat \<Rightarrow> string list \<Rightarrow> nat \<Rightarrow> string option io" where
  "wait_loop start_time initial_files timeout w =
     (if clock w - start_time < timeout * 1000 then
        (let current_files = top_level_names (fs w);
             new_files = filter (\<lambda>f. f \<notin> set initial_files) current_files
         in if new_files \<noteq> [] then
              (let w1 = advance 2000 w;
                   new_file = hd new_files
               in if \<not> endswith new_file ''.crdownload'' \<and> \<not> endswith new_file ''.tmp''
                  then (Inr (Some new_file), w1)
                  else wait_loop start_time initial_files timeout (advance 1000 w1))
            else wait_loop start_time initial_files timeout (advance 1000 w))
      else (Inr None, w))"
  by pat_completeness auto
termination
  by (relation "measure (\<lambda>(start_time, initial_files, timeout, w).
                  start_time + timeout * 1000 - clock w)") auto

declare wait_loop.simps [simp del]

definition wait_for_download :: "string list \<Rightarrow> nat \<Rightarrow> string option io" where
  "wait_for_download initial_files timeout w = wait_loop (clock w) initial_files timeout w"

subsection \<open>\<open>_organize_download\<close>\<close>

definition candidate :: "string \<Rightarrow> string \<Rightarrow> nat \<Rightarrow> string" where
  "candidate base_name extension counter = base_name @ ''_'' @ str_nat counter @ extension"

lemma candidate_inj: "candidate b e j = candidate b e k \<Longrightarrow> j = k"
  by (simp add: candidate_def str_nat_inj)

lemma finite_taken:
  "finite {k. path_exists disk (dir @ [candidate b e k])}"
proof -
  let ?f = "\<lambda>k. dir @ [candidate b e k]"
  have "?f ` {k. path_exists disk (?f k)} \<subseteq> dom (map_of disk)"
    by (auto simp: path_exists_def)
  then have "finite (?f ` {k. path_exists disk (?f k)})"
    by (rule finite_subset) (simp add: finite_dom_map_of)
  moreover have "inj_on ?f {k. path_exists disk (?f k)}"
    by (rule inj_onI) (simp add: candidate_inj)
  ultimately show ?thesis by (rule finite_imageD)
qed

text \<open>
  The \<open>while target_path.exists()\<close> loop once the counter is in use: the first
  candidate name, from \<open>counter\<close> on, that is not taken.
\<close>

function next_free :: "(path \<times> disk_file) list \<Rightarrow> path \<Rightarrow> string \<Rightarrow> string \<Rightarrow> nat \<Rightarrow> path" where
  "next_free disk target_dir base_name extension counter =
     (if path_exists disk (target_dir @ [candidate base_name extension counter])
      then next_free disk target_dir base_name extension (counter + 1)
      else target_dir @ [candidate base_name extension counter])"
  by pat_completeness auto
termination
proof (relation "measure (\<lambda>(disk, dir, b, e, c).
          card {k. c \<le> k \<and> path_exists disk (dir @ [candidate b e k])})", goal_cases)
  case 1
  show ?case by simp
next
  case (2 disk dir b e c)
  let ?S = "\<lambda>c. {k. c \<le> k \<and> path_exists disk (dir @ [candidate b e k])}"
  have fin: "finite (?S c)"
    by (rule finite_subset [OF _ finite_taken [of disk dir b e]]) auto
  have "c \<in> ?S c" and "c \<notin> ?S (c + 1)" using 2 by simp_all
  moreover have "?S (c + 1) \<subseteq> ?S c" by auto
  ultimately have "?S (c + 1) \<subset> ?S c" by blast
  then have "card (?S (c + 1)) < card (?S c)" using fin by (rule psubset_card_mono [rotated])
  then show ?case by simp
qed

declare next_free.simps [simp del]

text \<open>
  The target path: the file name itself when it is free, else the first free
  candidate, counting from 1.
\<close>

definition unique_target :: "(path \<times> disk_file) list \<Rightarrow> path \<Rightarrow> string \<Rightarrow> path" where
  "unique_target disk target_dir filename =
     (if path_exists disk (target_dir @ [filename])
      then next_free disk target_dir (stem filename) (suffix_of filename) 1
      else target_dir @ [filename])"

text \<open>
  \<open>target_dir.mkdir(parents=True, exist_ok=True)\<close>: directories are implicit in the
  model, so nothing changes on disk; it raises when a file stands where a directory is
  needed.
\<close>

definition mkdir_parents :: "path \<Rightarrow> unit io" where
  "mkdir_parents dir w =
     (if list_ex (path_exists (fs w)) (map (\<lambda>k. take k dir) [1..<Suc (length dir)])
      then (Inl (OSError ''File exists''), w)
      else (Inr (), w))"

text \<open>\<open>source_path.rename(target_path)\<close>: the file leaves its old path for the new one.\<close>

definition rename :: "path \<Rightarrow> path \<Rightarrow> unit io" where
  "rename src tgt w =
     (case map_of (fs w) src of
        None \<Rightarrow> (Inl (OSError ''No such file or directory''), w)
      | Some f \<Rightarrow> (Inr (), w\<lparr>fs := AList.update tgt f (AList.delete src (fs w))\<rparr>))"

definition organize_download :: "string \<Rightarrow> string \<Rightarrow> string \<Rightarrow> path io" where
  "organize_download filename inn' year' =
     bind_io (mkdir_parents [inn', year']) (\<lambda>_.
     bind_io (\<lambda>w. return (unique_target (fs w) [inn', year'] filename) w) (\<lambda>target_path.
     bind_io (rename [filename] target_path) (\<lambda>_.
     return target_path)))"

subsection \<open>\<open>_verify_download\<close>\<close>

text \<open>\<open>zipfile.ZipFile(file_path', 'r')\<close>.\<close>

definition open_zip :: "path \<Rightarrow> zip_entry list io" where
  "open_zip p w =
     (case map_of (fs w) p of
        None \<Rightarrow> (Inl (OSError ''No such file or directory''), w)
      | Some f \<Rightarrow>
          (case zip_view f of
             NotAnArchive \<Rightarrow> (Inl (BadZipFile ''File is not a zip file''), w)
           | Archive entries \<Rightarrow> (Inr entries, w)))"

text \<open>
  \<open>zipfile\<close> opens an entry by its name, and of several entries of one name the last
  stands for the name (\<open>NameToInfo\<close>). So reading the entry \<open>zinfo\<close> of an archive
  reads the last entry of that name.
\<close>

definition named_entry :: "zip_entry list \<Rightarrow> string \<Rightarrow> zip_entry option" where
  "named_entry entries name =
     (case filter (\<lambda>e. entry_name e = name) entries of
        [] \<Rightarrow> None
      | e # es \<Rightarrow> Some (last (e # es)))"

definition reads_as :: "zip_entry list \<Rightarrow> zip_entry \<Rightarrow> entry_check" where
  "reads_as entries zinfo =
     (case named_entry entries (entry_name zinfo) of
        None \<Rightarrow> ReadFails (KeyError (entry_name zinfo))
      | Some e \<Rightarrow> integrity e)"

text \<open>
  \<open>ZipFile.testzip()\<close>: goes through the entries of the archive, reads each (by its
  name) and returns the name of the first one whose checksum does not match, or
  \<open>None\<close>; another error while reading is raised.
\<close>

fun testzip_from :: "zip_entry list \<Rightarrow> zip_entry list \<Rightarrow> string option io" where
  "testzip_from entries [] = return None"
| "testzip_from entries (zinfo # rest) =
     (case reads_as entries zinfo of
        Intact \<Rightarrow> testzip_from entries rest
      | BadChecksum \<Rightarrow> return (Some (entry_name zinfo))
      | ReadFails x \<Rightarrow> raise x)"

definition testzip :: "zip_entry list \<Rightarrow> string option io" where
  "testzip entries = testzip_from entries entries"

text \<open>Python's truth value of an optional string: \<open>None\<close> and \<open>''\<close> are false.\<close>

fun truthy :: "string option \<Rightarrow> bool" where
  "truthy None = False"
| "truthy (Some s) = (s \<noteq> [])"

definition log_path :: "level \<Rightarrow> string \<Rightarrow> path \<Rightarrow> unit io" where
  "log_path l prefix p w = logger l (prefix @ str_path (download_dir w) p) w"

text \<open>\<open>try: m except zipfile.BadZipFile: h\<close>.\<close>

definition try_except_bad_zip :: "'a io \<Rightarrow> 'a io \<Rightarrow> 'a io" where
  "try_except_bad_zip m h w =
     (case m w of
        (Inl (BadZipFile msg), w') \<Rightarrow> h w'
      | r \<Rightarrow> r)"

text \<open>
  The archive branch of the verification. \<open>Some b\<close>: the function returns \<open>b\<close> from
  inside the branch; \<open>None\<close>: control goes on after it.
\<close>

definition check_zip :: "path \<Rightarrow> bool option io" where
  "check_zip file_path' =
     try_except_bad_zip
       (bind_io (open_zip file_path') (\<lambda>entries.
        bind_io (testzip entries) (\<lambda>bad_file.
        if truthy bad_file then
          bind_io (logger ERROR (''ZIP file corrupted, first bad file: '' @ the bad_file)) (\<lambda>_.
          return (Some False))
        else
          (let xlsx_files = filter (\<lambda>f. endswith f ''.xlsx'') (map entry_name entries) in
           if xlsx_files = [] then
             bind_io (log_path WARNING ''No .xlsx files found in ZIP: '' file_path') (\<lambda>_.
             return None)
           else
             bind_io (logger INFO (''Found '' @ str_nat (length xlsx_files) @ '' .xlsx files in ZIP'')) (\<lambda>_.
             return None)))))
       (bind_io (log_path ERROR ''Invalid ZIP file: '' file_path') (\<lambda>_.
        return (Some False)))"

text \<open>\<open>file_path'.stat().st_size\<close>.\<close>

definition stat_size :: "path \<Rightarrow> nat io" where
  "stat_size p w =
     (case map_of (fs w) p of
        None \<Rightarrow> (Inl (OSError ''No such file or directory''), w)
      | Some f \<Rightarrow> (Inr (st_size f), w))"

definition verify_download :: "path \<Rightarrow> bool io" where
  "verify_download file_path' =
     try_except
       (bind_io (\<lambda>w. return (path_exists (fs w) file_path') w) (\<lambda>there.
        if \<not> there then
          bind_io (log_path ERROR ''File does not exist: '' file_path') (\<lambda>_.
          return False)
        else
          bind_io (stat_size file_path') (\<lambda>size.
          if size = 0 then
            bind_io (log_path ERROR ''File is empty: '' file_path') (\<lambda>_.
            return False)
          else
            bind_io (if lower (suffix_of (last file_path')) = ''.zip''
                     then check_zip file_path' else return None) (\<lambda>returned.
            case returned of
              Some b \<Rightarrow> return b
            | None \<Rightarrow>
                bind_io (log_path INFO ''File verification passed: '' file_path') (\<lambda>_.
                return True)))))
       (\<lambda>e. bind_io (\<lambda>w. logger ERROR (''Error verifying file '' @ str_path (download_dir w) file_path'
                                        @ '': '' @ str_exn e) w) (\<lambda>_.
            return False))"

section \<open>The navigator and the download flows\<close>

subsection \<open>\<open>search_organization\<close>\<close>

definition search_url :: "string \<Rightarrow> string" where
  "search_url inn' = ''https://bo.nalog.gov.ru/search?query='' @ inn'"

text \<open>
  The loop over the \<open>ins\<close> elements found, and what follows it when no element
  matches. \<open>FindElements\<close> answers with the texts of the elements.
\<close>

fun click_matching :: "string \<Rightarrow> string list \<Rightarrow> bool io" where
  "click_matching inn' [] =
     bind_io (logger WARNING (''INN '' @ inn' @ '' not found in search results'')) (\<lambda>_.
     return False)"
| "click_matching inn' (element_text # elements) =
     (if strip element_text = inn' then
        bind_io (logger INFO (''Found matching INN: '' @ inn')) (\<lambda>_.
        bind_io (command (Click (Entry element_text))) (\<lambda>_.
        bind_io (random_delay 2 4) (\<lambda>_.
        return True)))
      else click_matching inn' elements)"

text \<open>The body of \<open>search_organization\<close>, without its decorator.\<close>

definition search_attempt :: "string \<Rightarrow> bool io" where
  "search_attempt inn' =
     try_except
       (bind_io (logger INFO (''Searching for INN: '' @ inn')) (\<lambda>_.
        bind_io (command (Get (search_url inn'))) (\<lambda>_.
        bind_io (random_delay 2 4) (\<lambda>_.
        bind_io (command (UntilPresent ResultsItem)) (\<lambda>_.
        bind_io (command (FindElements InnEntries)) (\<lambda>inn_elements.
        click_matching inn' inn_elements))))))
       (\<lambda>e. case e of
          TimeoutException m \<Rightarrow>
            bind_io (logger ERROR (''Timeout waiting for search results for INN: '' @ inn')) (\<lambda>_.
            return False)
        | _ \<Rightarrow>
            bind_io (logger ERROR (''Error searching for INN '' @ inn' @ '': '' @ str_exn e)) (\<lambda>_.
            return False))"

text \<open>
  The decorator \<open>@retry(stop=stop_after_attempt(3), wait=wait_exponential(multiplier=1,
  min=2, max=10))\<close> of the \<open>tenacity\<close> library. With no \<open>retry=\<close> argument it calls the
  function again only when the call raised an exception; a call that returns, whatever
  the value, ends it. After a raising attempt it gives up with \<open>RetryError\<close> once the
  attempt number has reached the stop, and else sleeps \<open>wait_exponential\<close> seconds
  (\<open>multiplier * 2 ** (attempt_number - 1)\<close>, kept between \<open>min\<close> and \<open>max\<close>) and tries again.
\<close>

definition wait_exponential :: "nat \<Rightarrow> nat" where
  "wait_exponential attempt_number = max 2 (min (1 * 2 ^ (attempt_number - 1)) 10)"

function retry_call :: "nat \<Rightarrow> nat \<Rightarrow> 'a io \<Rightarrow> 'a io" where
  "retry_call stop_after_attempt attempt_number f w =
     (case f w of
        (Inr v, w') \<Rightarrow> (Inr v, w')
      | (Inl e, w') \<Rightarrow>
          if stop_after_attempt \<le> attempt_number then (Inl (RetryError (str_exn e)), w')
          else retry_call stop_after_attempt (attempt_number + 1) f
                 (advance (wait_exponential attempt_number * 1000) w'))"
  by pat_completeness auto
termination
  by (relation "measure (\<lambda>(stop_after_attempt, attempt_number, f, w).
                  stop_after_attempt - attempt_number)") auto

declare retry_call.simps [simp del]

definition search_organization :: "string \<Rightarrow> bool io" where
  "search_organization inn' = retry_call 3 1 (search_attempt inn')"

subsection \<open>The two download flows\<close>

text \<open>\<open>year or "all"\<close>.\<close>

definition or_all :: "string option \<Rightarrow> string" where
  "or_all year' = (if truthy year' then the year' else ''all'')"

definition make_result ::
  "string \<Rightarrow> string option \<Rightarrow> bool \<Rightarrow> string option \<Rightarrow> string option \<Rightarrow> world \<Rightarrow> DownloadResult" where
  "make_result inn' year' ok path' message w =
     \<lparr>inn = inn', year = year', success = ok, file_path = path', error_message = message,
      timestamp = clock w\<rparr>"

definition new_result ::
  "string \<Rightarrow> string option \<Rightarrow> bool \<Rightarrow> string option \<Rightarrow> string option \<Rightarrow> DownloadResult io" where
  "new_result inn' year' ok path' message w = (Inr (make_result inn' year' ok path' message w), w)"

definition path_string :: "path \<Rightarrow> string io" where
  "path_string p w = (Inr (str_path (download_dir w) p), w)"

definition handle_download_popup :: "string \<Rightarrow> string option \<Rightarrow> DownloadResult option io" where
  "handle_download_popup inn' year' =
     try_except
       (bind_io (command (UntilPresent PopupButtons)) (\<lambda>_.
        bind_io (command (UntilClickable SelectAll)) (\<lambda>_.
        bind_io (command (Click SelectAll)) (\<lambda>_.
        bind_io (random_delay 1 2) (\<lambda>_.
        bind_io (command (UntilClickable DownloadArchive)) (\<lambda>_.
        bind_io get_download_files (\<lambda>initial_files.
        bind_io (command (Click DownloadArchive)) (\<lambda>_.
        bind_io (random_delay 3 5) (\<lambda>_.
        bind_io (wait_for_download initial_files 30) (\<lambda>downloaded_file.
        if truthy downloaded_file then
          bind_io (organize_download (the downloaded_file) inn' (or_all year')) (\<lambda>organized_path.
          bind_io (verify_download organized_path) (\<lambda>verified.
          if verified then
            bind_io (path_string organized_path) (\<lambda>s.
            bind_io (new_result inn' (Some (or_all year')) True (Some s) None) (\<lambda>r.
            return (Some r)))
          else
            bind_io (new_result inn' (Some (or_all year')) False None
                       (Some ''Download verification failed'')) (\<lambda>r.
            return (Some r))))
        else return None))))))))))
       (\<lambda>e. bind_io (logger ERROR (''Error in download popup for INN '' @ inn' @ '': '' @ str_exn e)) (\<lambda>_.
            bind_io (new_result inn' year' False None (Some (str_exn e))) (\<lambda>r.
            return (Some r))))"

definition download_specific_year :: "string \<Rightarrow> string \<Rightarrow> DownloadResult option io" where
  "download_specific_year inn' year' =
     try_except
       (bind_io (command (UntilClickable (YearButton year'))) (\<lambda>_.
        bind_io (command (Click (YearButton year'))) (\<lambda>_.
        bind_io (random_delay 1 2) (\<lambda>_.
        bind_io (command (UntilClickable SelectAll)) (\<lambda>_.
        bind_io (command (Click SelectAll)) (\<lambda>_.
        bind_io (random_delay 1 2) (\<lambda>_.
        bind_io (command (UntilClickable DownloadArchive)) (\<lambda>_.
        bind_io get_download_files (\<lambda>initial_files.
        bind_io (command (Click DownloadArchive)) (\<lambda>_.
        bind_io (random_delay 3 5) (\<lambda>_.
        bind_io (wait_for_download initial_files 30) (\<lambda>downloaded_file.
        if truthy downloaded_file then
          bind_io (organize_download (the downloaded_file) inn' year') (\<lambda>organized_path.
          bind_io (verify_download organized_path) (\<lambda>verified.
          if verified then
            bind_io (path_string organized_path) (\<lambda>s.
            bind_io (new_result inn' (Some year') True (Some s) None) (\<lambda>r.
            return (Some r)))
          else return None))
        else return None))))))))))))
       (\<lambda>e. bind_io (logger ERROR (''Error downloading '' @ year' @ '' reports for INN '' @ inn'
                                   @ '': '' @ str_exn e)) (\<lambda>_.
            bind_io (new_result inn' (Some year') False None (Some (str_exn e))) (\<lambda>r.
            return (Some r))))"

subsection \<open>\<open>download_reports\<close>\<close>

text \<open>
  The \<open>except\<close> branch of \<open>download_reports\<close> appends its failure to the list as the
  \<open>try\<close> block left it, so the list built so far is passed to it.
\<close>

definition download_failed ::
  "string \<Rightarrow> string option \<Rightarrow> DownloadResult list \<Rightarrow> exn \<Rightarrow> DownloadResult list io" where
  "download_failed inn' year' results e =
     bind_io (logger ERROR (''Error downloading reports for INN '' @ inn' @ '': '' @ str_exn e)) (\<lambda>_.
     bind_io (new_result inn' year' False None (Some (str_exn e))) (\<lambda>r.
     return (results @ [r])))"

fun opt_list :: "'a option \<Rightarrow> 'a list" where
  "opt_list None = []"
| "opt_list (Some r) = [r]"

definition download_reports :: "string \<Rightarrow> string option \<Rightarrow> DownloadResult list io" where
  "download_reports inn' year' w =
     (case bind_io (command (UntilPresent ReportsWrapper)) (\<lambda>_.
           bind_io (command (UntilClickable DownloadAsTable)) (\<lambda>_.
           bind_io (command (Click DownloadAsTable)) (\<lambda>_.
           random_delay 1 2))) w of
        (Inl e, w1) \<Rightarrow> download_failed inn' year' [] e w1
      | (Inr _, w1) \<Rightarrow>
          (case handle_download_popup inn' year' w1 of
             (Inl e, w2) \<Rightarrow> download_failed inn' year' [] e w2
           | (Inr popup_result, w2) \<Rightarrow>
               (let results = opt_list popup_result in
                if year' = None then
                  (case download_specific_year inn' ''2023'' w2 of
                     (Inl e, w3) \<Rightarrow> download_failed inn' year' results e w3
                   | (Inr year_2023_result, w3) \<Rightarrow>
                       (Inr (results @ opt_list year_2023_result), w3))
                else (Inr results, w2))))"

section \<open>The batch runner, the reporter and \<open>main\<close>\<close>

subsection \<open>Reading the identifiers\<close>

text \<open>
  Iterating over a file opened in text mode: the lines, each with its end. Python
  reads \<open>\r\n\<close> and a lone \<open>\r\<close> as \<open>\n\<close> (universal newlines); a last line may lack
  its end.
\<close>

fun readlines_from :: "string \<Rightarrow> string \<Rightarrow> string list" where
  "readlines_from line [] = (if line = [] then [] else [line])"
| "readlines_from line (c # cs) =
     (if c = CHR 0x0A then (line @ [CHR 0x0A]) # readlines_from [] cs
      else if c = CHR 0x0D then
        (case cs of
           [] \<Rightarrow> [line @ [CHR 0x0A]]
         | d # ds \<Rightarrow>
             if d = CHR 0x0A then (line @ [CHR 0x0A]) # readlines_from [] ds
             else (line @ [CHR 0x0A]) # readlines_from [] cs)
      else readlines_from (line @ [c]) cs)"

definition readlines :: "string \<Rightarrow> string list" where
  "readlines content = readlines_from [] content"

text \<open>\<open>[line.strip() for line in f if line.strip()]\<close>.\<close>

definition read_inns :: "string \<Rightarrow> string list" where
  "read_inns content = map strip (filter (\<lambda>line. strip line \<noteq> []) (readlines content))"

subsection \<open>\<open>process_inns\<close>\<close>

definition str_opt :: "string option \<Rightarrow> string" where
  "str_opt v = (case v of None \<Rightarrow> ''None'' | Some s \<Rightarrow> s)"

text \<open>The loop that logs the results of one identifier.\<close>

fun log_results :: "string \<Rightarrow> DownloadResult list \<Rightarrow> world \<Rightarrow> world" where
  "log_results inn' [] w = w"
| "log_results inn' (result # results) w =
     log_results inn' results
       (if success result then
          log_line INFO (''Successfully downloaded '' @ str_opt (year result) @ '' reports for INN ''
                         @ inn' @ '': '' @ str_opt (file_path result)) w
        else
          log_line ERROR (''Failed to download '' @ str_opt (year result) @ '' reports for INN ''
                          @ inn' @ '': '' @ str_opt (error_message result)) w)"

text \<open>
  The \<open>try\<close> block of the loop for one identifier: the exception it ended with, if any,
  and \<open>all_results\<close> as it stands then.
\<close>

definition attempt_inn ::
  "string \<Rightarrow> DownloadResult list \<Rightarrow> world \<Rightarrow> (exn option \<times> DownloadResult list) \<times> world" where
  "attempt_inn inn' all_results w =
     (case search_organization inn' w of
        (Inl e, w1) \<Rightarrow> ((Some e, all_results), w1)
      | (Inr found, w1) \<Rightarrow>
          if found then
            (case download_reports inn' None w1 of
               (Inl e, w2) \<Rightarrow> ((Some e, all_results), w2)
             | (Inr results, w2) \<Rightarrow>
                 ((None, all_results @ results), log_results inn' results w2))
          else
            ((None, all_results
                    @ [make_result inn' None False None (Some ''Organization not found'') w1]),
             w1))"

text \<open>One turn of the loop: the \<open>try\<close> block, its \<open>except\<close> branch, the delay.\<close>

definition process_inn ::
  "nat \<Rightarrow> nat \<Rightarrow> string \<Rightarrow> DownloadResult list \<Rightarrow> world \<Rightarrow> DownloadResult list \<times> world" where
  "process_inn i n inn' all_results w =
     (let w0 = log_line INFO (''Processing INN '' @ str_nat i @ ''/'' @ str_nat n @ '': '' @ inn') w
      in case attempt_inn inn' all_results w0 of
           ((None, results), w1) \<Rightarrow> (results, snd (random_delay 5 10 w1))
         | ((Some e, results), w1) \<Rightarrow>
             (let w2 = log_line ERROR (''Error processing INN '' @ inn' @ '': '' @ str_exn e) w1
              in (results @ [make_result inn' None False None (Some (str_exn e)) w2],
                  snd (random_delay 5 10 w2))))"

fun process_loop ::
  "nat \<Rightarrow> nat \<Rightarrow> string list \<Rightarrow> DownloadResult list \<Rightarrow> world \<Rightarrow> DownloadResult list \<times> world" where
  "process_loop i n [] all_results w = (all_results, w)"
| "process_loop i n (inn' # inns) all_results w =
     (case process_inn i n inn' all_results w of
        (results, w') \<Rightarrow> process_loop (i + 1) n inns results w')"

text \<open>\<open>_create_driver\<close>: start the browser, then run the script that hides the marker.\<close>

definition create_driver :: "unit io" where
  "create_driver =
     bind_io (command Launch) (\<lambda>_.
     bind_io (command ExecuteScript) (\<lambda>_.
     return ()))"

text \<open>
  The context manager \<open>get_driver\<close> around a body: the browser is quit on every way out
  of the body, and is not when it could not be created.
\<close>

definition get_driver :: "'a io \<Rightarrow> 'a io" where
  "get_driver body w =
     (case create_driver w of
        (Inl e, w1) \<Rightarrow> (Inl e, w1)
      | (Inr _, w1) \<Rightarrow>
          (case body w1 of
             (r, w2) \<Rightarrow>
               (case command Quit w2 of
                  (Inl e, w3) \<Rightarrow> (Inl e, w3)
                | (Inr _, w3) \<Rightarrow> (r, w3))))"

definition process_inns :: "string \<Rightarrow> DownloadResult list io" where
  "process_inns inns_file w =
     (case text_files w inns_file of
        None \<Rightarrow> (Inr [], log_line ERROR (''INNs file not found: '' @ inns_file) w)
      | Some content \<Rightarrow>
          (let inns = read_inns content;
               w0 = log_line INFO (''Processing '' @ str_nat (length inns) @ '' INNs from ''
                                   @ inns_file) w
           in get_driver (\<lambda>w1. case process_loop 1 (length inns) inns [] w1 of
                                  (all_results, w2) \<Rightarrow> (Inr all_results, w2)) w0))"

subsection \<open>\<open>generate_report\<close>\<close>

definition total_inns :: "DownloadResult list \<Rightarrow> nat" where
  "total_inns results = card (set (map inn results))"

definition successful_downloads :: "DownloadResult list \<Rightarrow> nat" where
  "successful_downloads results = length (filter success results)"

definition failed_downloads :: "DownloadResult list \<Rightarrow> nat" where
  "failed_downloads results = length (filter (\<lambda>r. \<not> success r) results)"

text \<open>
  A Python \<open>float\<close> is an IEEE 754 double: a rational number, which is what stands for
  it here. An operation on floats gives the double nearest to the exact result, a tie
  going to the even neighbour. \<open>round_half_even\<close> rounds to the nearest integer in that
  way.
\<close>

definition round_half_even :: "rat \<Rightarrow> int" where
  "round_half_even x =
     (let f = \<lfloor>x\<rfloor>; d = x - of_int f
      in if d < 1 / 2 then f else if 1 / 2 < d then f + 1 else if even f then f else f + 1)"

text \<open>
  The double nearest to a rational that is not negative (and below the largest
  double). Doubles are the multiples of \<open>2 ^ -1074\<close> with at most 53 significant bits:
  for a number whose integer part, in this unit, has more than 53 bits, the spacing of
  the doubles around it is \<open>2 ^ shift\<close> units.
\<close>

definition to_double :: "rat \<Rightarrow> rat" where
  "to_double q =
     (let scaled = q * 2 ^ 1074;
          shift = nat (bitlen \<lfloor>scaled\<rfloor> - 53);
          mantissa = round_half_even (scaled / 2 ^ shift)
      in of_int mantissa * 2 ^ shift / 2 ^ 1074)"

text \<open>
  \<open>successful_downloads / len(results) * 100\<close>: the division of two integers gives the
  double nearest to the quotient, and raises for an empty list; the product with 100
  is rounded again.
\<close>

definition success_rate :: "DownloadResult list \<Rightarrow> exn + rat" where
  "success_rate results =
     (if length results = 0 then Inl (ZeroDivisionError ''division by zero'')
      else Inr (to_double
                  (to_double (of_nat (successful_downloads results) / of_nat (length results))
                   * 100)))"

text \<open>
  The format \<open>:.1f\<close> for a float that is not negative: the decimal with one digit after
  the point nearest to the exact value of the float, ties to even.
\<close>

definition format_1f :: "rat \<Rightarrow> string" where
  "format_1f x =
     (let tenths = nat (round_half_even (x * 10))
      in str_nat (tenths div 10) @ ''.'' @ str_nat (tenths mod 10))"

definition nl :: string where
  "nl = [CHR 0x0A]"

text \<open>The two status glyphs, as the bytes of their UTF-8 encoding.\<close>

definition check_mark :: string where
  "check_mark = [CHR 0xE2, CHR 0x9C, CHR 0x93]"

definition ballot_x :: string where
  "ballot_x = [CHR 0xE2, CHR 0x9C, CHR 0x97]"

text \<open>\<open>a or b\<close> on optional strings, printed.\<close>

definition or_else :: "string option \<Rightarrow> string option \<Rightarrow> string" where
  "or_else a b = (if truthy a then the a else str_opt b)"

definition detail_line :: "DownloadResult \<Rightarrow> string" where
  "detail_line result =
     (if success result then check_mark else ballot_x) @ '' '' @ inn result
     @ '' ('' @ or_all (year result) @ ''): ''
     @ or_else (file_path result) (error_message result) @ nl"

definition generate_report :: "DownloadResult list \<Rightarrow> string io" where
  "generate_report results w =
     (case success_rate results of
        Inl e \<Rightarrow> (Inl e, w)
      | Inr rate \<Rightarrow>
          (Inr (nl @ ''Balance Sheet Download Summary Report'' @ nl
                @ ''====================================='' @ nl
                @ ''Generated: '' @ calendar w (clock w) @ nl
                @ nl
                @ ''Total INNs processed: '' @ str_nat (total_inns results) @ nl
                @ ''Successful downloads: '' @ str_nat (successful_downloads results) @ nl
                @ ''Failed downloads: '' @ str_nat (failed_downloads results) @ nl
                @ ''Success rate: '' @ format_1f rate @ ''%'' @ nl
                @ nl
                @ ''Detailed Results:'' @ nl
                @ concat (map detail_line results)), w))"

subsection \<open>\<open>main\<close>\<close>

definition write_text :: "string \<Rightarrow> string \<Rightarrow> unit io" where
  "write_text name content w = (Inr (), w\<lparr>text_files := (text_files w)(name \<mapsto> content)\<rparr>)"

definition print :: "string \<Rightarrow> unit io" where
  "print line w = (Inr (), w\<lparr>stdout := stdout w @ [line]\<rparr>)"

text \<open>\<open>main\<close>, given the two paths of the command line; it gives the exit status.\<close>

definition main :: "string \<Rightarrow> string \<Rightarrow> world \<Rightarrow> nat \<times> world" where
  "main inns_file report_file w =
     (case bind_io (process_inns inns_file) (\<lambda>results.
           bind_io (generate_report results) (\<lambda>report.
           bind_io (write_text report_file report) (\<lambda>_.
           bind_io (print (''Download process completed. Report saved to: '' @ report_file)) (\<lambda>_.
           bind_io (print (''Total results: '' @ str_nat (length results))) (\<lambda>_.
           print (''Successful downloads: '' @ str_nat (length (filter success results)))))))) w of
        (Inr _, w') \<Rightarrow> (0, w')
      | (Inl e, w') \<Rightarrow> (1, snd (print (''Fatal error: '' @ str_exn e) w')))"

section \<open>Worlds for the examples\<close>

definition quiet_response :: response where
  "quiet_response = \<lparr>took = 0, raised = None, texts = [], starts = []\<rparr>"

text \<open>Nothing on disk, no input file, a site where every command succeeds at once.\<close>

definition empty_world :: world where
  "empty_world = \<lparr>clock = 0, fs = [], arriving = [], site = (\<lambda>n a. quiet_response),
     history = [], jitter = (\<lambda>t. 0), logged = [], text_files = (\<lambda>name. None), stdout = [],
     download_dir = ''downloads'', calendar = (\<lambda>t. ''2024-01-01 00:00:00'')\<rparr>"

text \<open>
  Two results, one success and one failure: of two identifiers (the second not found),
  and of one identifier (its bulk download and its download for 2023).
\<close>

definition two_results :: "DownloadResult list" where
  "two_results =
     [\<lparr>inn = ''7707083893'', year = Some ''all'', success = True,
        file_path = Some ''downloads/7707083893/all/report.zip'', error_message = None,
        timestamp = 0\<rparr>,
      \<lparr>inn = ''0000000000'', year = None, success = False,
        file_path = None, error_message = Some ''Organization not found'', timestamp = 0\<rparr>]"

definition same_inn_results :: "DownloadResult list" where
  "same_inn_results =
     [\<lparr>inn = ''7707083893'', year = Some ''all'', success = True,
        file_path = Some ''downloads/7707083893/all/report.zip'', error_message = None,
        timestamp = 0\<rparr>,
      \<lparr>inn = ''7707083893'', year = Some ''2023'', success = False,
        file_path = None, error_message = Some ''Message: timeout'', timestamp = 0\<rparr>]"

text \<open>
  Eighty results of which twenty-three succeeded: a rate that is not a double.
\<close>

definition eighty_results :: "DownloadResult list" where
  "eighty_results =
     replicate 23 \<lparr>inn = ''7707083893'', year = Some ''all'', success = True,
        file_path = Some ''downloads/7707083893/all/report.zip'', error_message = None,
        timestamp = 0\<rparr>
     @ replicate 57 \<lparr>inn = ''0000000000'', year = None, success = False,
        file_path = None, error_message = Some ''Organization not found'', timestamp = 0\<rparr>"

text \<open>
  Disks for the examples: a target directory that already holds \<open>report.zip\<close> while a
  new \<open>report.zip\<close> waits in the download directory; a download directory with an old
  file and a new one; files that are empty, sound archives and a corrupted archive.
\<close>

definition taken_file :: disk_file where
  "taken_file = \<lparr>st_size = 10, zip_view = NotAnArchive\<rparr>"

definition fresh_file :: disk_file where
  "fresh_file = \<lparr>st_size = 20, zip_view = NotAnArchive\<rparr>"

definition collision_world :: world where
  "collision_world = empty_world\<lparr>fs :=
     [([''7707083893'', ''all'', ''report.zip''], taken_file), ([''report.zip''], fresh_file)]\<rparr>"

definition arrived_world :: world where
  "arrived_world = empty_world\<lparr>fs := [([''old.zip''], taken_file), ([''report.zip''], fresh_file)]\<rparr>"

text \<open>
  An empty download directory into which \<open>report.zip\<close> lands 4.5 seconds from now, and
  one into which it lands 29.5 seconds from now.
\<close>

definition landing_world :: world where
  "landing_world = empty_world\<lparr>arriving := [(4500, ''report.zip'', fresh_file)]\<rparr>"

definition late_world :: world where
  "late_world = empty_world\<lparr>arriving := [(29500, ''report.zip'', fresh_file)]\<rparr>"

definition empty_file :: disk_file where
  "empty_file = \<lparr>st_size = 0, zip_view = NotAnArchive\<rparr>"






text \<open>
  A site that is slow once: the wait for the results of the first search times out;
  from then on the results are there and show the identifier.
\<close>

definition slow_world :: world where
  "slow_world = empty_world\<lparr>site :=
     (\<lambda>n a. if n = 1 then quiet_response\<lparr>raised := Some (TimeoutException ''Message: '')\<rparr>
            else quiet_response\<lparr>texts := [''7707083893'']\<rparr>)\<rparr>"

text \<open>
  A site where every command succeeds and the click on the archive button starts a
  download that lands at once as \<open>report.zip\<close>, a file of size zero.
\<close>

definition empty_download_world :: world where
  "empty_download_world = empty_world\<lparr>site :=
     (\<lambda>n a. if a = Click DownloadArchive
            then quiet_response\<lparr>starts := [(0, ''report.zip'', empty_file)]\<rparr>
            else quiet_response)\<rparr>"




text \<open>
  An input file of four lines: an identifier, a blank line, an identifier with blanks
  around it and a Windows line end, and a line of blanks without a line end.
\<close>

definition inns_text :: string where
  "inns_text = ''7707083893'' @ [CHR 0x0A, CHR 0x0A] @ ''  0000000000 '' @ [CHR 0x0D, CHR 0x0A]
               @ ''   ''"

definition listed_world :: world where
  "listed_world = empty_world\<lparr>
     text_files := (\<lambda>name. if name = ''inns.txt'' then Some inns_text else None)\<rparr>"

section \<open>Notions used in the statements\<close>



text \<open>The pages the browser was sent to: the addresses of the \<open>Get\<close> commands, in order.\<close>

fun searched :: "action list \<Rightarrow> string list" where
  "searched [] = []"
| "searched (Get url # as) = url # searched as"
| "searched (a # as) = searched as"

text \<open>A statement that sends the browser to no page, and one that sends it to one page.\<close>

definition keeps_pages :: "'a io \<Rightarrow> bool" where
  "keeps_pages m = (\<forall>w. searched (history (snd (m w))) = searched (history w))"

definition visits :: "string \<Rightarrow> 'a io \<Rightarrow> bool" where
  "visits url m = (\<forall>w. searched (history (snd (m w))) = searched (history w) @ [url])"

text \<open>
  The identifiers as the specification words them: the lines of the file that are not
  blank, with the white space around them stripped, in the order of the file.
\<close>

definition nonblank_stripped_lines :: "string \<Rightarrow> string list" where
  "nonblank_stripped_lines content =
     map strip (filter (\<lambda>line. \<not> list_all isspace line) (readlines content))"

section \<open>The reporter on an empty list\<close>

lemma generate_report_empty:
  "generate_report [] w = (Inl (ZeroDivisionError ''division by zero''), w)"
  by (simp add: generate_report_def success_rate_def)

lemma process_inns_missing:
  "text_files w inns_file = None \<Longrightarrow>
     process_inns inns_file w = (Inr [], log_line ERROR (''INNs file not found: '' @ inns_file) w)"
  by (simp add: process_inns_def)

text \<open>
  Claim C10. The reporter divides by the length of the list without a guard: on the
  empty list it raises \<open>ZeroDivisionError\<close> and builds no report. The batch runner
  returns the empty list when the input file is missing, and \<open>main\<close> then ends with
  status 1 and writes no report file.
\<close>

theorem empty_results_fatal:
  "generate_report [] w = (Inl (ZeroDivisionError ''division by zero''), w)
   \<and> (text_files w inns_file = None \<longrightarrow>
        fst (process_inns inns_file w) = Inr []
        \<and> fst (main inns_file report_file w) = 1
        \<and> text_files (snd (main inns_file report_file w)) = text_files w)"
  by (simp add: generate_report_empty process_inns_missing main_def bind_io_def print_def
      log_line_def)

theorem empty_results_fatal_witness:
  "text_files empty_world ''inns.txt'' = None
   \<and> fst (process_inns ''inns.txt'' empty_world) = Inr []
   \<and> fst (main ''inns.txt'' ''download_report.txt'' empty_world) = 1
   \<and> text_files (snd (main ''inns.txt'' ''download_report.txt'' empty_world))
        ''download_report.txt'' = None"
  using empty_results_fatal [of empty_world "''inns.txt''" "''download_report.txt''"]
  by (simp add: empty_world_def)

section \<open>The reporter\<close>

subsection \<open>Rounding to the nearest double\<close>

lemma round_half_even_near: "\<bar>of_int (round_half_even x) - x\<bar> \<le> 1 / 2"
proof -
  define f where "f = \<lfloor>x\<rfloor>"
  have b: "of_int f \<le> x" "x < of_int f + 1" unfolding f_def by linarith+
  consider "x - of_int f < 1 / 2" | "1 / 2 < x - of_int f" | "x - of_int f = 1 / 2"
    by linarith
  then show ?thesis
  proof cases
    case 1
    then have "round_half_even x = f" by (simp add: round_half_even_def f_def)
    with 1 b show ?thesis by simp
  next
    case 2
    then have "round_half_even x = f + 1" by (simp add: round_half_even_def f_def)
    with 2 b show ?thesis by simp
  next
    case 3
    have "\<not> x - of_int f < 1 / 2" "\<not> 1 / 2 < x - of_int f" using 3 by simp_all
    then have "round_half_even x = (if even f then f else f + 1)"
      unfolding round_half_even_def Let_def f_def by (simp only: if_False)
    then have "round_half_even x = f \<or> round_half_even x = f + 1"
      by (cases "even f") simp_all
    then show ?thesis
    proof
      assume "round_half_even x = f" with 3 show ?thesis by simp
    next
      assume "round_half_even x = f + 1" with 3 show ?thesis by simp
    qed
  qed
qed

lemma round_half_even_int: "round_half_even (of_int k) = k"
  by (simp add: round_half_even_def)

lemma round_half_even_nonneg: "0 \<le> x \<Longrightarrow> 0 \<le> round_half_even x"
  by (simp add: round_half_even_def Let_def)

lemma bitlen_between:
  assumes "2 ^ k \<le> m" "m < 2 ^ (k + 1)"
  shows "bitlen m = int k + 1"
proof -
  from assms have pos: "0 < m" by (smt (verit) zero_less_power)
  from bitlen_bounds [OF pos]
  have b: "2 ^ nat (bitlen m - 1) \<le> m" "m < 2 ^ nat (bitlen m)" by simp_all
  have "(2::int) ^ nat (bitlen m - 1) < 2 ^ (k + 1)" using b(1) assms(2) by linarith
  then have 1: "nat (bitlen m - 1) < k + 1" by (simp only: power_strict_increasing_iff one_less_numeral_iff semiring_norm)
  have "(2::int) ^ k < 2 ^ nat (bitlen m)" using b(2) assms(1) by linarith
  then have 2: "k < nat (bitlen m)" by (simp only: power_strict_increasing_iff one_less_numeral_iff semiring_norm)
  from 1 2 show ?thesis by linarith
qed

lemma to_double_zero: "to_double 0 = 0"
  by (simp add: to_double_def round_half_even_def)

lemma to_double_nonneg: "0 \<le> q \<Longrightarrow> 0 \<le> to_double q"
  unfolding to_double_def Let_def
  by (intro divide_nonneg_nonneg mult_nonneg_nonneg zero_le_power)
     (simp_all add: round_half_even_nonneg)

lemma to_double_normal:
  assumes lo: "2 ^ 52 \<le> q * 2 ^ j" and hi: "q * 2 ^ j < 2 ^ 53" and j: "j \<le> 1074"
  shows "to_double q = of_int (round_half_even (q * 2 ^ j)) / 2 ^ j"
proof -
  define P :: rat where "P = 2 ^ 1074"
  define k where "k = 1074 - j"
  have P: "P = 2 ^ j * 2 ^ k" using j by (simp add: P_def k_def flip: power_add)
  have S: "q * P = (q * 2 ^ j) * 2 ^ k" by (simp add: P)
  have "(2::rat) ^ 52 * 2 ^ k \<le> q * P" unfolding S using lo by (simp only: mult_le_cancel_right_pos zero_less_power zero_less_numeral) 
  then have "of_int (2 ^ (52 + k)) \<le> q * P" by (simp add: power_add)
  then have 1: "2 ^ (52 + k) \<le> \<lfloor>q * P\<rfloor>" by (simp only: le_floor_iff)
  have "q * P < 2 ^ 53 * 2 ^ k" unfolding S using hi by (simp only: mult_less_cancel_right_pos zero_less_power zero_less_numeral) 
  then have "q * P < of_int (2 ^ (52 + k + 1))" by (simp add: power_add)
  then have 2: "\<lfloor>q * P\<rfloor> < 2 ^ (52 + k + 1)" by (simp only: floor_less_iff)
  from bitlen_between [OF 1 2] have "bitlen \<lfloor>q * P\<rfloor> = int (52 + k) + 1" .
  then have sh: "nat (bitlen \<lfloor>q * P\<rfloor> - 53) = k" by simp
  have "q * P / 2 ^ k = q * 2 ^ j" by (simp add: S)
  then have "to_double q = of_int (round_half_even (q * 2 ^ j)) * 2 ^ k / P"
    unfolding to_double_def Let_def P_def [symmetric] sh by simp
  also have "\<dots> = of_int (round_half_even (q * 2 ^ j)) / 2 ^ j"
    by (simp add: P)
  finally show ?thesis .
qed

lemma to_double_error:
  assumes "0 \<le> q"
  shows "\<bar>to_double q - q\<bar> \<le> q / 2 ^ 53 + 1 / 2 ^ 1075"
proof -
  define P :: rat where "P = 2 ^ 1074"
  have Ppos: "0 < P" by (simp add: P_def)
  define S where "S = q * P"
  define m where "m = \<lfloor>S\<rfloor>"
  define sh where "sh = nat (bitlen m - 53)"
  define M where "M = round_half_even (S / 2 ^ sh)"
  have S0: "0 \<le> S" using assms Ppos by (simp add: S_def)
  have td: "to_double q = of_int M * 2 ^ sh / P"
    by (simp add: to_double_def Let_def M_def sh_def m_def S_def P_def)
  have "\<bar>of_int M - S / 2 ^ sh\<bar> \<le> 1 / 2" unfolding M_def by (rule round_half_even_near)
  then have "\<bar>of_int M - S / 2 ^ sh\<bar> * 2 ^ sh \<le> 1 / 2 * 2 ^ sh"
    by (rule mult_right_mono) simp
  moreover have "\<bar>of_int M - S / 2 ^ sh\<bar> * 2 ^ sh = \<bar>of_int M * 2 ^ sh - S\<bar>"
  proof -
    have "\<bar>of_int M - S / 2 ^ sh\<bar> * 2 ^ sh = \<bar>(of_int M - S / 2 ^ sh) * 2 ^ sh\<bar>"
      by (simp add: abs_mult)
    also have "(of_int M - S / 2 ^ sh) * 2 ^ sh = of_int M * 2 ^ sh - S"
      by (simp add: field_simps)
    finally show ?thesis .
  qed
  ultimately have near: "\<bar>of_int M * 2 ^ sh - S\<bar> \<le> 2 ^ sh / 2" by simp
  have half: "(2::rat) ^ sh / 2 \<le> S / 2 ^ 53 + 1 / 2"
  proof (cases "bitlen m \<le> 53")
    case True
    then have "sh = 0" by (simp add: sh_def)
    then show ?thesis using S0 by simp
  next
    case False
    then have pos: "0 < m" by (smt (verit) bitlen_eq_zero_iff)
    from bitlen_bounds [OF pos] have "2 ^ nat (bitlen m - 1) \<le> m" by simp
    moreover have "nat (bitlen m - 1) = sh + 52" using False by (simp add: sh_def)
    ultimately have "2 ^ (sh + 52) \<le> m" by simp
    then have "of_int (2 ^ (sh + 52)) \<le> S" unfolding m_def by (simp only: le_floor_iff)
    then have "(2::rat) ^ sh * 2 ^ 52 \<le> S" by (simp add: power_add)
    then have "(2::rat) ^ sh / 2 \<le> S / 2 ^ 53" by simp
    then show ?thesis by linarith
  qed
  have "\<bar>to_double q - q\<bar> = \<bar>(of_int M * 2 ^ sh - S) / P\<bar>"
    using Ppos by (simp add: td S_def field_simps)
  also have "\<dots> = \<bar>of_int M * 2 ^ sh - S\<bar> / P" using Ppos by (simp add: abs_divide)
  also have "\<dots> \<le> (S / 2 ^ 53 + 1 / 2) / P"
    using near half Ppos by (intro divide_right_mono) linarith+
  also have "\<dots> = q / 2 ^ 53 + 1 / (2 * P)" using Ppos by (simp add: S_def field_simps)
  also have "2 * P = 2 ^ 1075" by (simp add: P_def)
  finally show ?thesis .
qed


lemma round_half_even_fraction:
  assumes "0 < b"
  shows "round_half_even (of_int a / of_int b) =
     (if 2 * (a mod b) < b then a div b
      else if b < 2 * (a mod b) then a div b + 1
      else if even (a div b) then a div b else a div b + 1)"
proof -
  have f: "\<lfloor>(of_int a / of_int b :: rat)\<rfloor> = a div b" by (rule floor_divide_of_int_eq)
  have "(of_int a :: rat) = of_int (a div b * b + a mod b)" by simp
  also have "\<dots> = of_int (a div b) * of_int b + of_int (a mod b)" by (simp only: of_int_add of_int_mult)
  finally have d: "(of_int a / of_int b :: rat) - of_int (a div b) = of_int (a mod b) / of_int b"
    using assms by (simp add: field_simps)
  have lt: "(of_int (a mod b) / of_int b < (1 / 2 :: rat)) = (2 * (a mod b) < b)"
  proof -
    have "(of_int (a mod b) / of_int b < (1 / 2 :: rat)) = ((of_int (2 * (a mod b)) :: rat) < of_int b)"
      using assms by (simp add: field_simps)
    then show ?thesis by (simp only: of_int_less_iff)
  qed
  have gt: "((1 / 2 :: rat) < of_int (a mod b) / of_int b) = (b < 2 * (a mod b))"
  proof -
    have "((1 / 2 :: rat) < of_int (a mod b) / of_int b) = ((of_int b :: rat) < of_int (2 * (a mod b)))"
      using assms by (simp add: field_simps)
    then show ?thesis by (simp only: of_int_less_iff)
  qed
  show ?thesis unfolding round_half_even_def Let_def f d lt gt ..
qed

lemma round_half_even_numeral:
  "round_half_even (numeral a / numeral b) =
     (if 2 * (numeral a mod numeral b) < (numeral b :: int) then numeral a div numeral b
      else if numeral b < 2 * (numeral a mod numeral b :: int) then numeral a div numeral b + 1
      else if even (numeral a div numeral b :: int) then numeral a div numeral b
      else numeral a div numeral b + 1)"
  using round_half_even_fraction [of "numeral b" "numeral a"] by simp

lemma to_double_one: "to_double 1 = 1"
  using to_double_normal [of 1 52] by (simp add: round_half_even_def)

lemma to_double_half: "to_double (1 / 2) = 1 / 2"
  using to_double_normal [of "1 / 2" 53] by (simp add: round_half_even_def)

lemma to_double_50: "to_double 50 = 50"
  using to_double_normal [of 50 47] by (simp add: round_half_even_def)

lemma to_double_100: "to_double 100 = 100"
  using to_double_normal [of 100 46] by (simp add: round_half_even_def)

lemma rate_23_80:
  "to_double (to_double (23 / 80) * 100) = 8092405580431359 / 2 ^ 48"
proof -
  have a: "to_double (23 / 80) = 5179139571476070 / 2 ^ 54"
    using to_double_normal [of "23 / 80" 54] by (simp add: round_half_even_numeral)
  have b: "to_double (5179139571476070 / 2 ^ 54 * 100) = 8092405580431359 / 2 ^ 48"
    using to_double_normal [of "5179139571476070 / 2 ^ 54 * 100" 48]
    by (simp add: round_half_even_numeral)
  show ?thesis by (simp only: a b)
qed

lemma rate_accuracy:
  assumes "0 \<le> x" "x \<le> 1"
  shows "\<bar>to_double (to_double x * 100) - 100 * x\<bar> \<le> 1 / 2 ^ 44"
    and "0 \<le> to_double (to_double x * 100)"
proof -
  define u :: rat where "u = 1 / 2 ^ 1075"
  have u: "0 \<le> u" "u \<le> 1 / 2 ^ 53" by (simp_all add: u_def)
  define d where "d = to_double x"
  define r where "r = to_double (d * 100)"
  have d0: "0 \<le> d" unfolding d_def using assms(1) by (rule to_double_nonneg)
  then have y0: "0 \<le> d * 100" by simp
  have 1: "\<bar>d - x\<bar> \<le> x / 2 ^ 53 + u"
    unfolding d_def u_def using assms(1) by (rule to_double_error)
  have 2: "\<bar>r - d * 100\<bar> \<le> d * 100 / 2 ^ 53 + u"
    unfolding r_def u_def using y0 by (rule to_double_error)
  have e: "(1 / 2 ^ 53 :: rat) = 1 / 9007199254740992" "(1 / 2 ^ 44 :: rat) = 512 / 9007199254740992"
    by simp_all
  from 1 [unfolded abs_le_iff e] 2 [unfolded abs_le_iff e] u [unfolded e] assms d0
  have "r - 100 * x \<le> 512 / 9007199254740992 \<and> - (r - 100 * x) \<le> 512 / 9007199254740992"
    by simp
  then have "\<bar>r - 100 * x\<bar> \<le> 1 / 2 ^ 44" unfolding abs_le_iff e .
  then show "\<bar>to_double (to_double x * 100) - 100 * x\<bar> \<le> 1 / 2 ^ 44"
    by (simp add: r_def d_def)
  show "0 \<le> to_double (to_double x * 100)"
    using y0 unfolding d_def by (rule to_double_nonneg)
qed

lemma format_1f_tenths:
  "format_1f x = str_nat (nat (round_half_even (x * 10)) div 10) @ ''.''
                 @ str_nat (nat (round_half_even (x * 10)) mod 10)"
  by (simp add: format_1f_def Let_def)

lemma tenths_near:
  assumes "0 \<le> r"
  shows "\<bar>of_nat (nat (round_half_even (r * 10))) / 10 - r\<bar> \<le> 1 / 20"
proof -
  have "0 \<le> round_half_even (r * 10)" using assms by (intro round_half_even_nonneg) simp
  then have "(of_nat (nat (round_half_even (r * 10))) :: rat) = of_int (round_half_even (r * 10))"
    by simp
  moreover have "\<bar>of_int (round_half_even (r * 10)) - r * 10\<bar> \<le> 1 / 2"
    by (rule round_half_even_near)
  ultimately have "of_int (round_half_even (r * 10)) - r * 10 \<le> 1 / 2
      \<and> - (of_int (round_half_even (r * 10)) - r * 10) \<le> 1 / 2"
    and eq: "(of_nat (nat (round_half_even (r * 10))) :: rat) = of_int (round_half_even (r * 10))"
    by (simp_all only: abs_le_iff)
  then show ?thesis unfolding abs_le_iff eq by simp
qed


subsection \<open>The report\<close>

lemma counts_add: "successful_downloads rs + failed_downloads rs = length rs"
  by (induction rs) (auto simp: successful_downloads_def failed_downloads_def)

lemma rate_tenths:
  assumes "s \<le> n" "0 < n"
  defines "tenths \<equiv>
    nat (round_half_even (to_double (to_double (of_nat s / of_nat n) * 100) * 10))"
  shows "\<bar>of_nat tenths / 10 - 100 * of_nat s / of_nat n\<bar> \<le> (1 / 20 + 1 / 2 ^ 44 :: rat)"
    and "s = n \<Longrightarrow> tenths = 1000"
    and "s = 0 \<Longrightarrow> tenths = 0"
    and "2 * s = n \<Longrightarrow> tenths = 500"
proof -
  define x :: rat where "x = of_nat s / of_nat n"
  define r where "r = to_double (to_double x * 100)"
  have t: "tenths = nat (round_half_even (r * 10))" by (simp add: tenths_def r_def x_def)
  have x: "0 \<le> x" "x \<le> 1" using assms(1,2) by (simp_all add: x_def)
  from rate_accuracy [OF x] have a: "\<bar>r - 100 * x\<bar> \<le> 1 / 2 ^ 44" and r0: "0 \<le> r"
    by (simp_all add: r_def)
  from tenths_near [OF r0] have b: "\<bar>of_nat tenths / 10 - r\<bar> \<le> 1 / 20" by (simp only: t)
  have "\<bar>of_nat tenths / 10 - 100 * x\<bar> \<le> \<bar>of_nat tenths / 10 - r\<bar> + \<bar>r - 100 * x\<bar>"
    using abs_triangle_ineq [of "of_nat tenths / 10 - r" "r - 100 * x"] by simp
  also have "\<dots> \<le> 1 / 20 + 1 / 2 ^ 44" using a b by (rule add_mono [rotated])
  finally show "\<bar>of_nat tenths / 10 - 100 * of_nat s / of_nat n\<bar> \<le> (1 / 20 + 1 / 2 ^ 44 :: rat)"
    by (simp add: x_def)
  show "tenths = 1000" if "s = n"
  proof -
    have "x = 1" using that assms(2) by (simp add: x_def)
    then have "r = 100" by (simp add: r_def to_double_one to_double_100)
    then show ?thesis by (simp add: t round_half_even_def)
  qed
  show "tenths = 0" if "s = 0"
  proof -
    have "x = 0" using that by (simp add: x_def)
    then have "r = 0" by (simp add: r_def to_double_zero)
    then show ?thesis by (simp add: t round_half_even_def)
  qed
  show "tenths = 500" if "2 * s = n"
  proof -
    have "n = 2 * s" using that by simp
    then have "x = 1 / 2" using assms(2) by (simp add: x_def)
    then have "r = to_double (to_double (1 / 2) * 100)" by (simp only: r_def)
    then have "r = 50" by (simp add: to_double_half to_double_50)
    then show ?thesis by (simp add: t round_half_even_def)
  qed
qed

text \<open>
  Claim C8. For a list of results that is not empty the reporter counts the distinct
  identifiers among the results, the results that succeeded and those that failed, and
  prints them. The rate it prints is the number of successes divided by the number of
  results (not of identifiers), times 100, computed in floating point and printed with
  one decimal: it is within 0.05 (and a rounding error below \<open>2 ^ -44\<close>) of the exact
  percentage, it is 100.0 when every result succeeded, 0.0 when none did and 50.0 when
  exactly half of them did, whether they are of two identifiers or of one.
\<close>

theorem report_aggregates:
  assumes "results \<noteq> []"
  shows "total_inns results = card (inn ` set results)
       \<and> successful_downloads results = length (filter success results)
       \<and> failed_downloads results = length (filter (\<lambda>r. \<not> success r) results)
       \<and> successful_downloads results + failed_downloads results = length results
       \<and> (\<exists>tenths.
            generate_report results w
              = (Inr (nl @ ''Balance Sheet Download Summary Report'' @ nl
                      @ ''====================================='' @ nl
                      @ ''Generated: '' @ calendar w (clock w) @ nl
                      @ nl
                      @ ''Total INNs processed: '' @ str_nat (card (inn ` set results)) @ nl
                      @ ''Successful downloads: ''
                      @ str_nat (length (filter success results)) @ nl
                      @ ''Failed downloads: ''
                      @ str_nat (length (filter (\<lambda>r. \<not> success r) results)) @ nl
                      @ ''Success rate: '' @ str_nat (tenths div 10) @ ''.''
                      @ str_nat (tenths mod 10) @ ''%'' @ nl
                      @ nl
                      @ ''Detailed Results:'' @ nl
                      @ concat (map detail_line results)), w)
            \<and> tenths = nat (round_half_even
                  (to_double (to_double (of_nat (length (filter success results))
                                         / of_nat (length results)) * 100) * 10))
            \<and> \<bar>of_nat tenths / 10
                 - 100 * of_nat (length (filter success results)) / of_nat (length results)\<bar>
                \<le> (1 / 20 + 1 / 2 ^ 44 :: rat)
            \<and> (length (filter success results) = length results \<longrightarrow> tenths = 1000)
            \<and> (length (filter success results) = 0 \<longrightarrow> tenths = 0)
            \<and> (2 * length (filter success results) = length results \<longrightarrow> tenths = 500))"
proof -
  define s where "s = length (filter success results)"
  define n where "n = length results"
  define tenths where "tenths =
    nat (round_half_even (to_double (to_double (of_nat s / of_nat n) * 100) * 10))"
  have sn: "s \<le> n" "0 < n" using assms by (simp_all add: s_def n_def)
  have rate: "success_rate results = Inr (to_double (to_double (of_nat s / of_nat n) * 100))"
    using assms by (simp add: success_rate_def successful_downloads_def s_def n_def)
  have report: "generate_report results w
              = (Inr (nl @ ''Balance Sheet Download Summary Report'' @ nl
                      @ ''====================================='' @ nl
                      @ ''Generated: '' @ calendar w (clock w) @ nl
                      @ nl
                      @ ''Total INNs processed: '' @ str_nat (card (inn ` set results)) @ nl
                      @ ''Successful downloads: ''
                      @ str_nat (length (filter success results)) @ nl
                      @ ''Failed downloads: ''
                      @ str_nat (length (filter (\<lambda>r. \<not> success r) results)) @ nl
                      @ ''Success rate: '' @ str_nat (tenths div 10) @ ''.''
                      @ str_nat (tenths mod 10) @ ''%'' @ nl
                      @ nl
                      @ ''Detailed Results:'' @ nl
                      @ concat (map detail_line results)), w)"
    by (simp add: generate_report_def rate format_1f_tenths tenths_def total_inns_def
        successful_downloads_def failed_downloads_def)
  note T = rate_tenths [OF sn, folded tenths_def]
  have "tenths = nat (round_half_even
                  (to_double (to_double (of_nat (length (filter success results))
                                         / of_nat (length results)) * 100) * 10))
            \<and> \<bar>of_nat tenths / 10
                 - 100 * of_nat (length (filter success results)) / of_nat (length results)\<bar>
                \<le> (1 / 20 + 1 / 2 ^ 44 :: rat)
            \<and> (length (filter success results) = length results \<longrightarrow> tenths = 1000)
            \<and> (length (filter success results) = 0 \<longrightarrow> tenths = 0)
            \<and> (2 * length (filter success results) = length results \<longrightarrow> tenths = 500)"
    using T unfolding s_def [symmetric] n_def [symmetric] by (simp add: tenths_def)
  with report have ex: "\<exists>tenths.
            generate_report results w
              = (Inr (nl @ ''Balance Sheet Download Summary Report'' @ nl
                      @ ''====================================='' @ nl
                      @ ''Generated: '' @ calendar w (clock w) @ nl
                      @ nl
                      @ ''Total INNs processed: '' @ str_nat (card (inn ` set results)) @ nl
                      @ ''Successful downloads: ''
                      @ str_nat (length (filter success results)) @ nl
                      @ ''Failed downloads: ''
                      @ str_nat (length (filter (\<lambda>r. \<not> success r) results)) @ nl
                      @ ''Success rate: '' @ str_nat (tenths div 10) @ ''.''
                      @ str_nat (tenths mod 10) @ ''%'' @ nl
                      @ nl
                      @ ''Detailed Results:'' @ nl
                      @ concat (map detail_line results)), w)
            \<and> tenths = nat (round_half_even
                  (to_double (to_double (of_nat (length (filter success results))
                                         / of_nat (length results)) * 100) * 10))
            \<and> \<bar>of_nat tenths / 10
                 - 100 * of_nat (length (filter success results)) / of_nat (length results)\<bar>
                \<le> (1 / 20 + 1 / 2 ^ 44 :: rat)
            \<and> (length (filter success results) = length results \<longrightarrow> tenths = 1000)
            \<and> (length (filter success results) = 0 \<longrightarrow> tenths = 0)
            \<and> (2 * length (filter success results) = length results \<longrightarrow> tenths = 500)"
    by blast
  have counts: "total_inns results = card (inn ` set results)"
    "successful_downloads results = length (filter success results)"
    "failed_downloads results = length (filter (\<lambda>r. \<not> success r) results)"
    by (simp_all add: total_inns_def successful_downloads_def failed_downloads_def)
  from counts counts_add [of results] ex show ?thesis by (intro conjI)
qed


lemma tenths_287:
  "nat (round_half_even (to_double (to_double (23 / 80) * 100) * 10)) = 287"
  by (simp add: rate_23_80 round_half_even_numeral)

theorem report_aggregates_witness:
  "generate_report two_results empty_world
     = (Inr (nl @ ''Balance Sheet Download Summary Report'' @ nl
             @ ''====================================='' @ nl
             @ ''Generated: 2024-01-01 00:00:00'' @ nl
             @ nl
             @ ''Total INNs processed: 2'' @ nl
             @ ''Successful downloads: 1'' @ nl
             @ ''Failed downloads: 1'' @ nl
             @ ''Success rate: 50.0%'' @ nl
             @ nl
             @ ''Detailed Results:'' @ nl
             @ concat (map detail_line two_results)), empty_world)
   \<and> generate_report same_inn_results empty_world
     = (Inr (nl @ ''Balance Sheet Download Summary Report'' @ nl
             @ ''====================================='' @ nl
             @ ''Generated: 2024-01-01 00:00:00'' @ nl
             @ nl
             @ ''Total INNs processed: 1'' @ nl
             @ ''Successful downloads: 1'' @ nl
             @ ''Failed downloads: 1'' @ nl
             @ ''Success rate: 50.0%'' @ nl
             @ nl
             @ ''Detailed Results:'' @ nl
             @ concat (map detail_line same_inn_results)), empty_world)
   \<and> generate_report eighty_results empty_world
     = (Inr (nl @ ''Balance Sheet Download Summary Report'' @ nl
             @ ''====================================='' @ nl
             @ ''Generated: 2024-01-01 00:00:00'' @ nl
             @ nl
             @ ''Total INNs processed: 2'' @ nl
             @ ''Successful downloads: 23'' @ nl
             @ ''Failed downloads: 57'' @ nl
             @ ''Success rate: 28.7%'' @ nl
             @ nl
             @ ''Detailed Results:'' @ nl
             @ concat (map detail_line eighty_results)), empty_world)
   \<and> total_inns two_results = 2 \<and> total_inns same_inn_results = 1
   \<and> successful_downloads two_results = 1 \<and> failed_downloads two_results = 1
   \<and> successful_downloads eighty_results = 23 \<and> failed_downloads eighty_results = 57"
proof -
  have a: "two_results \<noteq> []" "same_inn_results \<noteq> []" "eighty_results \<noteq> []"
    by (simp_all add: two_results_def same_inn_results_def eighty_results_def)
  have c: "card (inn ` set two_results) = 2" "length (filter success two_results) = 1"
     "length (filter (\<lambda>r. \<not> success r) two_results) = 1" "length two_results = 2"
    by (simp_all add: two_results_def)
  have d: "card (inn ` set same_inn_results) = 1" "length (filter success same_inn_results) = 1"
     "length (filter (\<lambda>r. \<not> success r) same_inn_results) = 1" "length same_inn_results = 2"
    by (simp_all add: same_inn_results_def)
  have e: "card (inn ` set eighty_results) = 2" "length (filter success eighty_results) = 23"
     "length (filter (\<lambda>r. \<not> success r) eighty_results) = 57" "length eighty_results = 80"
    by (simp_all add: eighty_results_def)
  have s: "str_nat 0 = ''0''" "str_nat 1 = ''1''" "str_nat (Suc 0) = ''1''" "str_nat 2 = ''2''"
    "str_nat 7 = ''7''" "str_nat 23 = ''23''" "str_nat 28 = ''28''" "str_nat 50 = ''50''"
    "str_nat 57 = ''57''"
    by (simp_all add: str_nat.simps digit_def)
  have w: "calendar empty_world (clock empty_world) = ''2024-01-01 00:00:00''"
    by (simp add: empty_world_def)
  note A = report_aggregates [OF a(1), of empty_world, unfolded c w]
  note B = report_aggregates [OF a(2), of empty_world, unfolded d w]
  note C = report_aggregates [OF a(3), of empty_world, unfolded e w]
  from A have 1: "generate_report two_results empty_world
     = (Inr (nl @ ''Balance Sheet Download Summary Report'' @ nl
             @ ''====================================='' @ nl
             @ ''Generated: 2024-01-01 00:00:00'' @ nl
             @ nl
             @ ''Total INNs processed: 2'' @ nl
             @ ''Successful downloads: 1'' @ nl
             @ ''Failed downloads: 1'' @ nl
             @ ''Success rate: 50.0%'' @ nl
             @ nl
             @ ''Detailed Results:'' @ nl
             @ concat (map detail_line two_results)), empty_world)"
    by (clarsimp simp: s)
  from B have 2: "generate_report same_inn_results empty_world
     = (Inr (nl @ ''Balance Sheet Download Summary Report'' @ nl
             @ ''====================================='' @ nl
             @ ''Generated: 2024-01-01 00:00:00'' @ nl
             @ nl
             @ ''Total INNs processed: 1'' @ nl
             @ ''Successful downloads: 1'' @ nl
             @ ''Failed downloads: 1'' @ nl
             @ ''Success rate: 50.0%'' @ nl
             @ nl
             @ ''Detailed Results:'' @ nl
             @ concat (map detail_line same_inn_results)), empty_world)"
    by (clarsimp simp: s)
  from C have 3: "generate_report eighty_results empty_world
     = (Inr (nl @ ''Balance Sheet Download Summary Report'' @ nl
             @ ''====================================='' @ nl
             @ ''Generated: 2024-01-01 00:00:00'' @ nl
             @ nl
             @ ''Total INNs processed: 2'' @ nl
             @ ''Successful downloads: 23'' @ nl
             @ ''Failed downloads: 57'' @ nl
             @ ''Success rate: 28.7%'' @ nl
             @ nl
             @ ''Detailed Results:'' @ nl
             @ concat (map detail_line eighty_results)), empty_world)"
    by (clarsimp simp: s tenths_287)
  from A B C have 4: "total_inns two_results = 2 \<and> total_inns same_inn_results = 1
   \<and> successful_downloads two_results = 1 \<and> failed_downloads two_results = 1
   \<and> successful_downloads eighty_results = 23 \<and> failed_downloads eighty_results = 57"
    by simp
  from 1 2 3 4 show ?thesis by (intro conjI) simp_all
qed

section \<open>Relocating a download\<close>

lemma next_free_spec:
  "\<exists>k\<ge>c. next_free disk dir b e c = dir @ [candidate b e k]
      \<and> \<not> path_exists disk (dir @ [candidate b e k])
      \<and> (\<forall>j. c \<le> j \<and> j < k \<longrightarrow> path_exists disk (dir @ [candidate b e j]))"
proof (induction disk dir b e c rule: next_free.induct)
  case (1 disk dir b e c)
  show ?case
  proof (cases "path_exists disk (dir @ [candidate b e c])")
    case True
    from "1.IH" [OF True] obtain k where k: "c + 1 \<le> k"
      "next_free disk dir b e (c + 1) = dir @ [candidate b e k]"
      "\<not> path_exists disk (dir @ [candidate b e k])"
      "\<forall>j. c + 1 \<le> j \<and> j < k \<longrightarrow> path_exists disk (dir @ [candidate b e j])"
      by blast
    have "next_free disk dir b e c = dir @ [candidate b e k]"
      using True k(2) by (subst next_free.simps) simp
    moreover have "\<forall>j. c \<le> j \<and> j < k \<longrightarrow> path_exists disk (dir @ [candidate b e j])"
    proof (intro allI impI)
      fix j assume j: "c \<le> j \<and> j < k"
      show "path_exists disk (dir @ [candidate b e j])"
      proof (cases "j = c")
        case True with \<open>path_exists disk (dir @ [candidate b e c])\<close> show ?thesis by simp
      next
        case False with j k(4) show ?thesis by simp
      qed
    qed
    ultimately show ?thesis using k(1,3) by (intro exI [of _ k]) simp
  next
    case False
    then have "next_free disk dir b e c = dir @ [candidate b e c]"
      by (subst next_free.simps) simp
    with False show ?thesis by (intro exI [of _ c]) auto
  qed
qed

lemma unique_target_free: "\<not> path_exists disk (unique_target disk dir filename)"
  using next_free_spec [of 1 disk dir "stem filename" "suffix_of filename"]
  by (auto simp: unique_target_def)

lemma bind_io_Inr:
  "bind_io m f w = (Inr v, w') \<longleftrightarrow> (\<exists>x w1. m w = (Inr x, w1) \<and> f x w1 = (Inr v, w'))"
  by (auto simp: bind_io_def split: prod.splits sum.splits)

lemma organize_download_Inr:
  "organize_download filename i y w = (Inr p, w') \<longleftrightarrow>
     (\<not> path_exists (fs w) [i] \<and> \<not> path_exists (fs w) [i, y]
      \<and> p = unique_target (fs w) [i, y] filename
      \<and> (\<exists>f. map_of (fs w) [filename] = Some f
            \<and> w' = w\<lparr>fs := AList.update p f (AList.delete [filename] (fs w))\<rparr>))"
  by (auto simp: organize_download_def bind_io_Inr return_def mkdir_parents_def rename_def
      split: if_splits option.splits)

lemma map_of_after_move:
  "map_of (AList.update p f (AList.delete src disk)) = ((map_of disk)(src := None))(p \<mapsto> f)"
  by (simp add: update_conv' delete_conv')

text \<open>
  Claim C6. When the target directory already holds a file of the download's name (and
  the source file is there and the directories can be made), the download is placed at
  the name with \<open>_counter\<close> before the extension, for the least counter from 1 whose
  name is free; the file is moved: it is at the new path and no longer at the old one.
  With \<open>report.zip\<close> taken and \<open>report_1.zip\<close> free, the new path is \<open>report_1.zip\<close>.
\<close>

theorem organize_download_collision:
  assumes source: "map_of (fs w) [filename] = Some f"
    and dirs: "\<not> path_exists (fs w) [inn']" "\<not> path_exists (fs w) [inn', year']"
    and taken: "path_exists (fs w) [inn', year', filename]"
  shows "\<exists>counter\<ge>1.
           organize_download filename inn' year' w
             = (Inr [inn', year', stem filename @ ''_'' @ str_nat counter @ suffix_of filename],
                w\<lparr>fs := AList.update
                            [inn', year', stem filename @ ''_'' @ str_nat counter @ suffix_of filename]
                            f (AList.delete [filename] (fs w))\<rparr>)
           \<and> \<not> path_exists (fs w)
                 [inn', year', stem filename @ ''_'' @ str_nat counter @ suffix_of filename]
           \<and> (\<forall>j. 1 \<le> j \<and> j < counter \<longrightarrow>
                 path_exists (fs w) [inn', year', stem filename @ ''_'' @ str_nat j @ suffix_of filename])
           \<and> map_of (fs (snd (organize_download filename inn' year' w))) [filename] = None
           \<and> map_of (fs (snd (organize_download filename inn' year' w)))
                 [inn', year', stem filename @ ''_'' @ str_nat counter @ suffix_of filename] = Some f"
proof -
  from next_free_spec [of 1 "fs w" "[inn', year']" "stem filename" "suffix_of filename"]
  obtain k where k: "1 \<le> k"
    "next_free (fs w) [inn', year'] (stem filename) (suffix_of filename) 1
       = [inn', year'] @ [candidate (stem filename) (suffix_of filename) k]"
    "\<not> path_exists (fs w) ([inn', year'] @ [candidate (stem filename) (suffix_of filename) k])"
    "\<forall>j. 1 \<le> j \<and> j < k \<longrightarrow>
        path_exists (fs w) ([inn', year'] @ [candidate (stem filename) (suffix_of filename) j])"
    by blast
  let ?p = "[inn', year', stem filename @ ''_'' @ str_nat k @ suffix_of filename]"
  have target: "unique_target (fs w) [inn', year'] filename = ?p"
    using taken k(2) by (simp add: unique_target_def candidate_def)
  have run: "organize_download filename inn' year' w
               = (Inr ?p, w\<lparr>fs := AList.update ?p f (AList.delete [filename] (fs w))\<rparr>)"
    using source dirs target by (simp add: organize_download_Inr)
  have "?p \<noteq> [filename]" by simp
  then have moved: "map_of (AList.update ?p f (AList.delete [filename] (fs w))) [filename] = None"
      "map_of (AList.update ?p f (AList.delete [filename] (fs w))) ?p = Some f"
    by (simp_all add: map_of_after_move)
  show ?thesis
    apply (rule exI [of _ k])
    using k(1,3,4) run moved by (simp add: candidate_def)
qed

lemma report_zip_parts:
  "stem ''report.zip'' = ''report''" "suffix_of ''report.zip'' = ''.zip''"
  "str_nat 1 = ''1''" "str_nat (Suc 0) = ''1''"
  by (simp_all add: stem_def suffix_of_def str_nat.simps digit_def)

lemma collision_run:
  "organize_download ''report.zip'' ''7707083893'' ''all'' collision_world
     = (Inr [''7707083893'', ''all'', ''report_1.zip''],
        collision_world\<lparr>fs := [([''7707083893'', ''all'', ''report.zip''], taken_file),
                                ([''7707083893'', ''all'', ''report_1.zip''], fresh_file)]\<rparr>)"
  by (simp add: organize_download_Inr unique_target_def next_free.simps path_exists_def
      candidate_def report_zip_parts collision_world_def empty_world_def)

theorem organize_download_collision_witness:
  "map_of (fs collision_world) [''report.zip''] = Some fresh_file
   \<and> \<not> path_exists (fs collision_world) [''7707083893'']
   \<and> \<not> path_exists (fs collision_world) [''7707083893'', ''all'']
   \<and> path_exists (fs collision_world) [''7707083893'', ''all'', ''report.zip'']
   \<and> fst (organize_download ''report.zip'' ''7707083893'' ''all'' collision_world)
       = Inr [''7707083893'', ''all'', ''report_1.zip'']
   \<and> map_of (fs (snd (organize_download ''report.zip'' ''7707083893'' ''all'' collision_world)))
       [''report.zip''] = None
   \<and> map_of (fs (snd (organize_download ''report.zip'' ''7707083893'' ''all'' collision_world)))
       [''7707083893'', ''all'', ''report_1.zip''] = Some fresh_file"
proof -
  have h: "map_of (fs collision_world) [''report.zip''] = Some fresh_file"
    "\<not> path_exists (fs collision_world) [''7707083893'']"
    "\<not> path_exists (fs collision_world) [''7707083893'', ''all'']"
    "path_exists (fs collision_world) [''7707083893'', ''all'', ''report.zip'']"
    by (simp_all add: collision_world_def empty_world_def path_exists_def)
  have free: "\<not> path_exists (fs collision_world) [''7707083893'', ''all'', ''report_1.zip'']"
    by (simp add: collision_world_def empty_world_def path_exists_def)
  from organize_download_collision [OF h]
  obtain c where c: "1 \<le> c"
    "organize_download ''report.zip'' ''7707083893'' ''all'' collision_world
       = (Inr [''7707083893'', ''all'', stem ''report.zip'' @ ''_'' @ str_nat c @ suffix_of ''report.zip''],
          collision_world\<lparr>fs := AList.update
            [''7707083893'', ''all'', stem ''report.zip'' @ ''_'' @ str_nat c @ suffix_of ''report.zip'']
            fresh_file (AList.delete [''report.zip''] (fs collision_world))\<rparr>)"
    "\<forall>j. 1 \<le> j \<and> j < c \<longrightarrow> path_exists (fs collision_world)
        [''7707083893'', ''all'', stem ''report.zip'' @ ''_'' @ str_nat j @ suffix_of ''report.zip'']"
    "map_of (fs (snd (organize_download ''report.zip'' ''7707083893'' ''all'' collision_world)))
        [''report.zip''] = None"
    "map_of (fs (snd (organize_download ''report.zip'' ''7707083893'' ''all'' collision_world)))
        [''7707083893'', ''all'', stem ''report.zip'' @ ''_'' @ str_nat c @ suffix_of ''report.zip'']
      = Some fresh_file"
    by blast
  have "c = 1"
  proof (rule ccontr)
    assume "c \<noteq> 1"
    with c(1) have "1 \<le> (1::nat) \<and> 1 < c" by simp
    with c(3) have "path_exists (fs collision_world)
        [''7707083893'', ''all'', stem ''report.zip'' @ ''_'' @ str_nat 1 @ suffix_of ''report.zip'']"
      by blast
    with free show False by (simp add: report_zip_parts)
  qed
  with c(2,4,5) h show ?thesis by (simp add: report_zip_parts)
qed

text \<open>
  Claim C7. Whatever is on disk before it, an invocation that returns gives a path of
  the target directory that did not exist before that invocation; every other file
  (the source apart) is as it was, so nothing is overwritten, and the paths on disk
  stay pairwise distinct. Since this holds from any state, it holds at every step of a
  sequence of invocations.
\<close>

theorem organize_download_never_overwrites:
  assumes "organize_download filename inn' year' w = (Inr p, w')"
  shows "\<not> path_exists (fs w) p
       \<and> path_exists (fs w') p
       \<and> (\<exists>name. p = [inn', year', name])
       \<and> (\<forall>q. q \<noteq> [filename] \<and> q \<noteq> p \<longrightarrow> map_of (fs w') q = map_of (fs w) q)
       \<and> (\<forall>q. path_exists (fs w) q \<and> q \<noteq> [filename] \<longrightarrow> map_of (fs w') q = map_of (fs w) q)
       \<and> (distinct (map fst (fs w)) \<longrightarrow> distinct (map fst (fs w')))"
proof -
  from assms obtain f where p: "p = unique_target (fs w) [inn', year'] filename"
    and w': "w' = w\<lparr>fs := AList.update p f (AList.delete [filename] (fs w))\<rparr>"
    by (auto simp: organize_download_Inr)
  have free: "\<not> path_exists (fs w) p" unfolding p by (rule unique_target_free)
  have name: "\<exists>name. p = [inn', year', name]"
    using next_free_spec [of 1 "fs w" "[inn', year']" "stem filename" "suffix_of filename"]
    by (auto simp: p unique_target_def)
  have m: "map_of (fs w') = ((map_of (fs w))([filename] := None))(p \<mapsto> f)"
    by (simp add: w' map_of_after_move)
  have d: "distinct (map fst (fs w)) \<longrightarrow> distinct (map fst (fs w'))"
    by (simp add: w' distinct_update distinct_delete)
  from free name m d show ?thesis by (auto simp: path_exists_def)
qed

theorem organize_download_never_overwrites_witness:
  "organize_download ''report.zip'' ''7707083893'' ''all'' collision_world
     = (Inr [''7707083893'', ''all'', ''report_1.zip''],
        collision_world\<lparr>fs := [([''7707083893'', ''all'', ''report.zip''], taken_file),
                                ([''7707083893'', ''all'', ''report_1.zip''], fresh_file)]\<rparr>)
   \<and> \<not> path_exists (fs collision_world) [''7707083893'', ''all'', ''report_1.zip'']
   \<and> map_of (fs (collision_world\<lparr>fs := [([''7707083893'', ''all'', ''report.zip''], taken_file),
                                ([''7707083893'', ''all'', ''report_1.zip''], fresh_file)]\<rparr>))
        [''7707083893'', ''all'', ''report.zip'']
      = map_of (fs collision_world) [''7707083893'', ''all'', ''report.zip'']
   \<and> map_of (fs collision_world) [''7707083893'', ''all'', ''report.zip''] = Some taken_file"
  using organize_download_never_overwrites [OF collision_run] collision_run
  by (simp add: collision_world_def empty_world_def path_exists_def)

section \<open>Detecting a download\<close>

lemma top_level_names_mem:
  "n \<in> set (top_level_names disk) \<longleftrightarrow> path_exists disk [n]"
  unfolding path_exists_def
  by (induction disk) (auto simp: top_level_names_def split: list.splits if_splits)

lemma path_exists_land:
  "path_exists (land disk a) p \<longleftrightarrow> p = [fst (snd a)] \<or> path_exists disk p"
  by (auto simp: path_exists_def land_def update_conv')

lemma path_exists_foldl_land:
  "path_exists (foldl land disk as) p \<longleftrightarrow>
     path_exists disk p \<or> p \<in> (\<lambda>a. [fst (snd a)]) ` set as"
  by (induction as arbitrary: disk) (auto simp: path_exists_land)

lemma names_after_advance:
  "n \<in> set (top_level_names (fs (advance ms w))) \<longleftrightarrow>
     n \<in> set (top_level_names (fs w))
     \<or> (\<exists>a \<in> set (arriving w). fst a \<le> clock w + ms \<and> fst (snd a) = n)"
  by (auto simp: top_level_names_mem advance_def settle_def path_exists_foldl_land due_def)

lemma arriving_after_advance:
  "set (arriving (advance ms w)) = {a \<in> set (arriving w). \<not> fst a \<le> clock w + ms}"
  by (auto simp: advance_def settle_def due_def)

lemma wait_loop_quiet:
  "(\<forall>a \<in> set (arriving w). fst a < start + timeout * 1000 \<longrightarrow> fst (snd a) \<in> set initial)
   \<Longrightarrow> (clock w < start + timeout * 1000 \<longrightarrow> (\<forall>n \<in> set (top_level_names (fs w)). n \<in> set initial))
   \<Longrightarrow> start \<le> clock w
   \<Longrightarrow> \<exists>w'. wait_loop start initial timeout w = (Inr None, w') \<and> start + timeout * 1000 \<le> clock w'"
proof (induction start initial timeout w rule: wait_loop.induct)
  case (1 start initial timeout w)
  show ?case
  proof (cases "clock w - start < timeout * 1000")
    case False
    then show ?thesis using "1.prems" by (subst wait_loop.simps) auto
  next
    case True
    then have early: "clock w < start + timeout * 1000" using "1.prems"(3) by simp
    with "1.prems"(2) have none: "filter (\<lambda>f. f \<notin> set initial) (top_level_names (fs w)) = []"
      by (auto simp: filter_empty_conv)
    have step: "wait_loop start initial timeout w
                = wait_loop start initial timeout (advance 1000 w)"
      using True none by (subst wait_loop.simps) simp
    have "\<exists>w'. wait_loop start initial timeout (advance 1000 w) = (Inr None, w')
              \<and> start + timeout * 1000 \<le> clock w'"
    proof (rule "1.IH"(2) [OF True refl refl])
      show "\<not> filter (\<lambda>f. f \<notin> set initial) (top_level_names (fs w)) \<noteq> []"
        using none by simp
      show "\<forall>a\<in>set (arriving (advance 1000 w)).
              fst a < start + timeout * 1000 \<longrightarrow> fst (snd a) \<in> set initial"
        using "1.prems"(1) by (simp add: arriving_after_advance)
      show "clock (advance 1000 w) < start + timeout * 1000 \<longrightarrow>
              (\<forall>n\<in>set (top_level_names (fs (advance 1000 w))). n \<in> set initial)"
        using "1.prems"(1,2) by (fastforce simp: names_after_advance)
      show "start \<le> clock (advance 1000 w)" using "1.prems"(3) by simp
    qed
    with step show ?thesis by simp
  qed
qed

lemma wait_loop_never_raises: "\<exists>r w'. wait_loop start initial timeout w = (Inr r, w')"
proof (induction start initial timeout w rule: wait_loop.induct)
  case (1 start initial timeout w)
  show ?case
    by (subst wait_loop.simps) (use "1.IH" in \<open>auto simp: Let_def\<close>)
qed

lemma wait_loop_first_poll:
  "0 < timeout \<Longrightarrow> filter (\<lambda>f. f \<notin> set initial) (top_level_names (fs w)) = name # others
   \<Longrightarrow> \<not> endswith name ''.crdownload'' \<Longrightarrow> \<not> endswith name ''.tmp''
   \<Longrightarrow> wait_loop (clock w) initial timeout w = (Inr (Some name), advance 2000 w)"
  by (subst wait_loop.simps) (simp add: Let_def)

lemma wait_loop_lands:
  assumes "start \<le> clock w"
    and "\<forall>n \<in> set (top_level_names (fs w)). n \<notin> set initial \<longrightarrow> n = name"
    and "\<forall>a \<in> set (arriving w). fst (snd a) \<notin> set initial \<longrightarrow> fst (snd a) = name"
    and "\<forall>a \<in> set (arriving w). clock w < fst a"
    and "\<not> endswith name ''.crdownload''" "\<not> endswith name ''.tmp''"
    and "((\<exists>n \<in> set (top_level_names (fs w)). n \<notin> set initial)
            \<and> clock w - start < timeout * 1000)
         \<or> (\<exists>a \<in> set (arriving w). fst (snd a) = name \<and> name \<notin> set initial
               \<and> fst a + 1000 \<le> start + timeout * 1000)"
  shows "fst (wait_loop start initial timeout w) = Inr (Some name)"
  using assms
proof (induction start initial timeout w rule: wait_loop.induct)
  case (1 start initial timeout w)
  let ?new = "filter (\<lambda>f. f \<notin> set initial) (top_level_names (fs w))"
  have running: "clock w - start < timeout * 1000"
    using "1.prems"(7)
  proof (elim disjE)
    assume "(\<exists>n \<in> set (top_level_names (fs w)). n \<notin> set initial)
            \<and> clock w - start < timeout * 1000"
    then show ?thesis by simp
  next
    assume "\<exists>a \<in> set (arriving w). fst (snd a) = name \<and> name \<notin> set initial
               \<and> fst a + 1000 \<le> start + timeout * 1000"
    then obtain a where a: "a \<in> set (arriving w)" "fst a + 1000 \<le> start + timeout * 1000"
      by blast
    with "1.prems"(4) have "clock w < fst a" by blast
    with a(2) "1.prems"(1) show ?thesis by linarith
  qed
  show ?case
  proof (cases "?new = []")
    case False
    then have "hd ?new \<in> set ?new" by (rule hd_in_set)
    then have "hd ?new = name" using "1.prems"(2) by auto
    with False running "1.prems"(5,6) show ?thesis
      by (subst wait_loop.simps) (simp add: Let_def)
  next
    case True
    then have none: "\<forall>n \<in> set (top_level_names (fs w)). n \<in> set initial"
      by (auto simp: filter_empty_conv)
    with "1.prems"(7) obtain a where a: "a \<in> set (arriving w)" "fst (snd a) = name"
      "name \<notin> set initial" "fst a + 1000 \<le> start + timeout * 1000" by blast
    have later: "clock w < fst a" using "1.prems"(4) a(1) by blast
    have step: "wait_loop start initial timeout w
                  = wait_loop start initial timeout (advance 1000 w)"
      using running True by (subst wait_loop.simps) simp
    have "fst (wait_loop start initial timeout (advance 1000 w)) = Inr (Some name)"
    proof (rule "1.IH"(2) [OF running refl refl])
      show "\<not> ?new \<noteq> []" using True by simp
      show "start \<le> clock (advance 1000 w)" using "1.prems"(1) by simp
      show "\<forall>n \<in> set (top_level_names (fs (advance 1000 w))). n \<notin> set initial \<longrightarrow> n = name"
        using none "1.prems"(3) by (fastforce simp: names_after_advance)
      show "\<forall>a \<in> set (arriving (advance 1000 w)). fst (snd a) \<notin> set initial \<longrightarrow> fst (snd a) = name"
        using "1.prems"(3) by (simp add: arriving_after_advance)
      show "\<forall>a \<in> set (arriving (advance 1000 w)). clock (advance 1000 w) < fst a"
        by (auto simp: arriving_after_advance)
      show "\<not> endswith name ''.crdownload''" "\<not> endswith name ''.tmp''"
        using "1.prems"(5,6) by simp_all
      show "((\<exists>n \<in> set (top_level_names (fs (advance 1000 w))). n \<notin> set initial)
            \<and> clock (advance 1000 w) - start < timeout * 1000)
         \<or> (\<exists>a \<in> set (arriving (advance 1000 w)). fst (snd a) = name \<and> name \<notin> set initial
               \<and> fst a + 1000 \<le> start + timeout * 1000)"
      proof (cases "fst a \<le> clock w + 1000")
        case True
        then have "name \<in> set (top_level_names (fs (advance 1000 w)))"
          using a(1,2) by (auto simp: names_after_advance)
        moreover have "clock (advance 1000 w) - start < timeout * 1000"
          using later a(4) "1.prems"(1) by simp
        ultimately show ?thesis using a(3) by blast
      next
        case False
        then have "a \<in> set (arriving (advance 1000 w))"
          using a(1) by (simp add: arriving_after_advance)
        with a(2,3,4) show ?thesis by blast
      qed
    qed
    with step show ?thesis by simp
  qed
qed

lemma wait_loop_misses:
  assumes "clock w = start + k * 1000"
    and "clock w < start + timeout * 1000
           \<longrightarrow> (\<forall>n \<in> set (top_level_names (fs w)). n \<in> set initial)"
    and "\<forall>a \<in> set (arriving w).
           fst a + 1000 \<le> start + timeout * 1000 \<longrightarrow> fst (snd a) \<in> set initial"
  shows "\<exists>w'. wait_loop start initial timeout w = (Inr None, w')
               \<and> start + timeout * 1000 \<le> clock w'"
  using assms
proof (induction start initial timeout w arbitrary: k rule: wait_loop.induct)
  case (1 start initial timeout w)
  show ?case
  proof (cases "clock w - start < timeout * 1000")
    case False
    then show ?thesis using "1.prems"(1) by (subst wait_loop.simps) auto
  next
    case True
    then have early: "clock w < start + timeout * 1000" using "1.prems"(1) by simp
    with "1.prems"(2) have none: "filter (\<lambda>f. f \<notin> set initial) (top_level_names (fs w)) = []"
      by (auto simp: filter_empty_conv)
    have step: "wait_loop start initial timeout w
                = wait_loop start initial timeout (advance 1000 w)"
      using True none by (subst wait_loop.simps) simp
    have k: "k < timeout" using early "1.prems"(1) by simp
    have "\<exists>w'. wait_loop start initial timeout (advance 1000 w) = (Inr None, w')
              \<and> start + timeout * 1000 \<le> clock w'"
    proof (rule "1.IH"(2) [OF True refl refl])
      show "\<not> filter (\<lambda>f. f \<notin> set initial) (top_level_names (fs w)) \<noteq> []"
        using none by simp
      show "clock (advance 1000 w) = start + Suc k * 1000" using "1.prems"(1) by simp
      show "\<forall>a\<in>set (arriving (advance 1000 w)).
              fst a + 1000 \<le> start + timeout * 1000 \<longrightarrow> fst (snd a) \<in> set initial"
        using "1.prems"(3) by (simp add: arriving_after_advance)
      show "clock (advance 1000 w) < start + timeout * 1000 \<longrightarrow>
              (\<forall>n\<in>set (top_level_names (fs (advance 1000 w))). n \<in> set initial)"
      proof (intro impI ballI)
        fix n
        assume c: "clock (advance 1000 w) < start + timeout * 1000"
          and n: "n \<in> set (top_level_names (fs (advance 1000 w)))"
        from c "1.prems"(1) have "Suc k < timeout" by simp
        then have room: "clock w + 1000 + 1000 \<le> start + timeout * 1000"
          using "1.prems"(1) by simp
        from n consider "n \<in> set (top_level_names (fs w))"
          | a where "a \<in> set (arriving w)" "fst a \<le> clock w + 1000" "fst (snd a) = n"
          by (auto simp: names_after_advance)
        then show "n \<in> set initial"
        proof cases
          case 1
          with early "1.prems"(2) show ?thesis by blast
        next
          case 2
          with room have "fst a + 1000 \<le> start + timeout * 1000" by simp
          with 2 "1.prems"(3) show ?thesis by blast
        qed
      qed
    qed
    with step show ?thesis by simp
  qed
qed


text \<open>
  Claim C4. When the directory shows, against the snapshot taken before, exactly one
  new name, and that name has neither the suffix \<open>.crdownload\<close> nor \<open>.tmp\<close>, the
  detector returns that name: at once when the name is there at the first look, and
  also when the file lands later, as long as it lands by the last look, which is one
  second before the end of the window (\<open>timeout\<close> seconds, one look every second). When
  no new name is there nor lands by the last look, the detector returns no file, once
  the window is over; a file that lands in the last second is not seen. It never raises.
\<close>

theorem wait_for_download_detects:
  "(0 < timeout
      \<and> filter (\<lambda>f. f \<notin> set initial_files) (top_level_names (fs w)) = [name]
      \<and> \<not> endswith name ''.crdownload'' \<and> \<not> endswith name ''.tmp''
     \<longrightarrow> fst (wait_for_download initial_files timeout w) = Inr (Some name))
   \<and> ((\<forall>n \<in> set (top_level_names (fs w)). n \<in> set initial_files)
      \<and> (\<forall>a \<in> set (arriving w). clock w < fst a)
      \<and> (\<forall>a \<in> set (arriving w). fst (snd a) \<notin> set initial_files \<longrightarrow> fst (snd a) = name)
      \<and> \<not> endswith name ''.crdownload'' \<and> \<not> endswith name ''.tmp''
      \<and> (\<exists>a \<in> set (arriving w). fst (snd a) = name \<and> name \<notin> set initial_files
             \<and> fst a + 1000 \<le> clock w + timeout * 1000)
     \<longrightarrow> fst (wait_for_download initial_files timeout w) = Inr (Some name))
   \<and> ((\<forall>n \<in> set (top_level_names (fs w)). n \<in> set initial_files)
      \<and> (\<forall>a \<in> set (arriving w).
            fst a + 1000 \<le> clock w + timeout * 1000 \<longrightarrow> fst (snd a) \<in> set initial_files)
     \<longrightarrow> fst (wait_for_download initial_files timeout w) = Inr None
         \<and> clock w + timeout * 1000 \<le> clock (snd (wait_for_download initial_files timeout w)))
   \<and> (\<exists>r. fst (wait_for_download initial_files timeout w) = Inr r)"
proof (intro conjI impI)
  assume "0 < timeout
      \<and> filter (\<lambda>f. f \<notin> set initial_files) (top_level_names (fs w)) = [name]
      \<and> \<not> endswith name ''.crdownload'' \<and> \<not> endswith name ''.tmp''"
  then show "fst (wait_for_download initial_files timeout w) = Inr (Some name)"
    by (simp add: wait_for_download_def wait_loop_first_poll)
next
  assume h: "(\<forall>n \<in> set (top_level_names (fs w)). n \<in> set initial_files)
      \<and> (\<forall>a \<in> set (arriving w). clock w < fst a)
      \<and> (\<forall>a \<in> set (arriving w). fst (snd a) \<notin> set initial_files \<longrightarrow> fst (snd a) = name)
      \<and> \<not> endswith name ''.crdownload'' \<and> \<not> endswith name ''.tmp''
      \<and> (\<exists>a \<in> set (arriving w). fst (snd a) = name \<and> name \<notin> set initial_files
             \<and> fst a + 1000 \<le> clock w + timeout * 1000)"
  have "fst (wait_loop (clock w) initial_files timeout w) = Inr (Some name)"
    by (rule wait_loop_lands) (use h in auto)
  then show "fst (wait_for_download initial_files timeout w) = Inr (Some name)"
    by (simp add: wait_for_download_def)
next
  assume h: "(\<forall>n \<in> set (top_level_names (fs w)). n \<in> set initial_files)
      \<and> (\<forall>a \<in> set (arriving w).
            fst a + 1000 \<le> clock w + timeout * 1000 \<longrightarrow> fst (snd a) \<in> set initial_files)"
  have "\<exists>w'. wait_loop (clock w) initial_files timeout w = (Inr None, w')
               \<and> clock w + timeout * 1000 \<le> clock w'"
    by (rule wait_loop_misses [where k = 0]) (use h in auto)
  then show "fst (wait_for_download initial_files timeout w) = Inr None"
    and "clock w + timeout * 1000 \<le> clock (snd (wait_for_download initial_files timeout w))"
    by (auto simp: wait_for_download_def)
next
  show "\<exists>r. fst (wait_for_download initial_files timeout w) = Inr r"
    using wait_loop_never_raises [of "clock w" initial_files timeout w]
    by (auto simp: wait_for_download_def)
qed

theorem wait_for_download_detects_witness:
  "filter (\<lambda>f. f \<notin> set [''old.zip'']) (top_level_names (fs arrived_world)) = [''report.zip'']
   \<and> \<not> endswith ''report.zip'' ''.crdownload'' \<and> \<not> endswith ''report.zip'' ''.tmp''
   \<and> fst (wait_for_download [''old.zip''] 30 arrived_world) = Inr (Some ''report.zip'')
   \<and> top_level_names (fs arrived_world) = [''old.zip'', ''report.zip'']
   \<and> arriving arrived_world = []
   \<and> fst (wait_for_download [''old.zip'', ''report.zip''] 30 arrived_world) = Inr None
   \<and> top_level_names (fs landing_world) = [] \<and> clock landing_world = 0
   \<and> arriving landing_world = [(4500, ''report.zip'', fresh_file)]
   \<and> fst (wait_for_download [] 30 landing_world) = Inr (Some ''report.zip'')
   \<and> top_level_names (fs late_world) = [] \<and> clock late_world = 0
   \<and> arriving late_world = [(29500, ''report.zip'', fresh_file)]
   \<and> fst (wait_for_download [] 30 late_world) = Inr None"
proof -
  have a: "top_level_names (fs arrived_world) = [''old.zip'', ''report.zip'']"
    "arriving arrived_world = []"
    by (simp_all add: arrived_world_def empty_world_def top_level_names_def)
  have b: "\<not> endswith ''report.zip'' ''.crdownload''" "\<not> endswith ''report.zip'' ''.tmp''"
    by (simp_all add: endswith_def)
  have c: "top_level_names (fs landing_world) = []" "clock landing_world = 0"
    "arriving landing_world = [(4500, ''report.zip'', fresh_file)]"
    by (simp_all add: landing_world_def empty_world_def top_level_names_def)
  have d: "top_level_names (fs late_world) = []" "clock late_world = 0"
    "arriving late_world = [(29500, ''report.zip'', fresh_file)]"
    by (simp_all add: late_world_def empty_world_def top_level_names_def)
  from wait_for_download_detects [of 30 "[''old.zip'']" arrived_world "''report.zip''"]
    wait_for_download_detects [of 30 "[''old.zip'', ''report.zip'']" arrived_world "''x''"]
    wait_for_download_detects [of 30 "[]" landing_world "''report.zip''"]
    wait_for_download_detects [of 30 "[]" late_world "''report.zip''"]
  show ?thesis using a b c d by simp
qed


section \<open>Verifying a download\<close>

lemma named_entry_member:
  "e \<in> set es \<Longrightarrow> \<exists>d \<in> set es. named_entry es (entry_name e) = Some d"
proof -
  assume "e \<in> set es"
  then have ne: "filter (\<lambda>d. entry_name d = entry_name e) es \<noteq> []"
    by (auto simp: filter_empty_conv)
  then obtain x xs where f: "filter (\<lambda>d. entry_name d = entry_name e) es = x # xs"
    by (cases "filter (\<lambda>d. entry_name d = entry_name e) es") auto
  have "last (x # xs) \<in> set (x # xs)" by (rule last_in_set) simp
  then have "last (x # xs) \<in> set es" unfolding f [symmetric] by simp
  with f show ?thesis by (auto simp: named_entry_def)
qed

lemma reads_as_intact:
  "e \<in> set es \<Longrightarrow> \<forall>d \<in> set es. integrity d = Intact \<Longrightarrow> reads_as es e = Intact"
  using named_entry_member [of e es] by (auto simp: reads_as_def)



















text \<open>
  The test \<open>if bad_file:\<close> is on the truth value of the name that \<open>testzip\<close> returns, so
  a corrupted entry whose name is empty goes unnoticed.
\<close>

lemma verify_download_unnamed_entry:
  "fst (verify_download [''7707083893'', ''all'', ''report.zip'']
         (empty_world\<lparr>fs := [([''7707083893'', ''all'', ''report.zip''],
                                \<lparr>st_size = 4096, zip_view = Archive [ZipEntry [] BadChecksum]\<rparr>)]\<rparr>))
     = Inr True"
  by (simp add: verify_download_def try_except_def bind_io_def return_def path_exists_def
      stat_size_def log_path_def logger_def check_zip_def try_except_bad_zip_def open_zip_def
      empty_world_def lower_def lower_char_def suffix_of_def endswith_def testzip_def
      reads_as_def named_entry_def)

section \<open>The search and its retry decorator\<close>

lemma try_except_total:
  "(\<And>e w1. \<exists>v w2. h e w1 = (Inr v, w2)) \<Longrightarrow> \<exists>v w'. try_except m h w = (Inr v, w')"
  unfolding try_except_def by (cases "m w") (auto split: sum.splits)

lemma search_attempt_never_raises: "\<exists>b w'. search_attempt inn' w = (Inr b, w')"
  unfolding search_attempt_def
proof (rule try_except_total)
  fix e w1
  show "\<exists>v w2. (case e of
          TimeoutException m \<Rightarrow>
            bind_io (logger ERROR (''Timeout waiting for search results for INN: '' @ inn')) (\<lambda>_.
            return False)
        | _ \<Rightarrow>
            bind_io (logger ERROR (''Error searching for INN '' @ inn' @ '': '' @ str_exn e)) (\<lambda>_.
            return False)) w1 = (Inr v, w2)"
    by (cases e) (auto simp: bind_io_def logger_def return_def)
qed

lemma retry_call_returns: "f w = (Inr v, w') \<Longrightarrow> retry_call n k f w = (Inr v, w')"
  by (subst retry_call.simps) simp

lemma search_organization_once: "search_organization inn' w = search_attempt inn' w"
proof -
  obtain b w' where "search_attempt inn' w = (Inr b, w')"
    using search_attempt_never_raises by blast
  then show ?thesis by (simp add: search_organization_def retry_call_returns)
qed

lemmas run_simps = bind_io_def return_def try_except_def command_def logger_def log_line_def
  random_delay_def sleep_def advance_def settle_def quiet_response_def empty_world_def

text \<open>
  Claim C2 asks for up to three attempts. The body of \<open>search_organization\<close> catches
  every exception and returns \<open>False\<close>, and the decorator calls again only after an
  exception, so the search is attempted once: on the slow site it reports failure after
  one page load and one wait, although a second attempt would have found the
  identifier.
\<close>

theorem search_organization_single_attempt:
  "fst (search_organization ''7707083893'' slow_world) = Inr False
   \<and> history (snd (search_organization ''7707083893'' slow_world))
       = [Get (search_url ''7707083893''), UntilPresent ResultsItem]
   \<and> fst (search_attempt ''7707083893'' (snd (search_organization ''7707083893'' slow_world)))
       = Inr True"
  by (simp add: search_organization_once search_attempt_def slow_world_def run_simps
      strip_def isspace_def)

section \<open>A failed verification in the two flows\<close>



lemmas flow_simps = get_download_files_def top_level_names_def wait_for_download_def
  wait_loop.simps endswith_def organize_download_def mkdir_parents_def unique_target_def
  path_exists_def rename_def verify_download_def stat_size_def log_path_def new_result_def
  make_result_def path_string_def or_all_def due_def land_def

text \<open>
  Claim C3 asks every flow to report a failed verification as a failed result. Neither
  flow raises, and the bulk flow returns the failed result with the message
  \<open>Download verification failed\<close>; the year-specific flow has no branch for it and
  returns no result at all: the empty download is moved to its place, fails the
  verification, and the flow returns \<open>None\<close>.
\<close>

theorem download_specific_year_drops_failure:
  "fst (download_specific_year ''7707083893'' ''2023'' empty_download_world) = Inr None
   \<and> map_of (fs (snd (download_specific_year ''7707083893'' ''2023'' empty_download_world)))
        [''7707083893'', ''2023'', ''report.zip''] = Some empty_file
   \<and> fst (verify_download [''7707083893'', ''2023'', ''report.zip'']
            (snd (download_specific_year ''7707083893'' ''2023'' empty_download_world))) = Inr False
   \<and> fst (handle_download_popup ''7707083893'' None empty_download_world)
       = Inr (Some \<lparr>inn = ''7707083893'', year = Some ''all'', success = False, file_path = None,
                    error_message = Some ''Download verification failed'', timestamp = 6000\<rparr>)"
  by (simp add: download_specific_year_def handle_download_popup_def empty_download_world_def
      run_simps flow_simps empty_file_def)

section \<open>The results of a batch\<close>

























section \<open>The identifiers a batch processes\<close>

lemma searched_append: "searched (xs @ ys) = searched xs @ searched ys"
  by (induction xs rule: searched.induct) simp_all

lemma history_advance [simp]: "history (advance ms w) = history w"
  by (simp add: advance_def settle_def)

lemma keeps_pagesD: "keeps_pages m \<Longrightarrow> m w = (r, w') \<Longrightarrow> searched (history w') = searched (history w)"
  unfolding keeps_pages_def by (metis snd_conv)

lemma visitsD: "visits u m \<Longrightarrow> m w = (r, w') \<Longrightarrow> searched (history w') = searched (history w) @ [u]"
  unfolding visits_def by (metis snd_conv)

lemma keeps_return: "keeps_pages (return v)"
  and keeps_raise: "keeps_pages (raise e)"
  and keeps_logger: "keeps_pages (logger l msg)"
  and keeps_log_path: "keeps_pages (log_path l msg p)"
  and keeps_sleep: "keeps_pages (sleep ms)"
  and keeps_random_delay: "keeps_pages (random_delay a b)"
  and keeps_get_download_files: "keeps_pages get_download_files"
  and keeps_new_result: "keeps_pages (new_result i y ok fp em)"
  and keeps_path_string: "keeps_pages (path_string p)"
  by (simp_all add: keeps_pages_def return_def raise_def logger_def log_line_def log_path_def
      sleep_def random_delay_def get_download_files_def new_result_def path_string_def Let_def)

lemma keeps_command: "(\<And>u. a \<noteq> Get u) \<Longrightarrow> keeps_pages (command a)"
  by (cases a) (auto simp: keeps_pages_def command_def Let_def searched_append)

lemma visits_command: "visits u (command (Get u))"
  by (simp add: visits_def command_def Let_def searched_append)

lemma keeps_bind: "keeps_pages m \<Longrightarrow> (\<And>x. keeps_pages (f x)) \<Longrightarrow> keeps_pages (bind_io m f)"
  unfolding keeps_pages_def bind_io_def
  by (auto split: prod.splits sum.splits) (metis snd_conv)+

lemma keeps_try_except:
  "keeps_pages m \<Longrightarrow> (\<And>e. keeps_pages (h e)) \<Longrightarrow> keeps_pages (try_except m h)"
  unfolding keeps_pages_def try_except_def
  by (auto split: prod.splits sum.splits) (metis snd_conv)+

lemma keeps_if: "keeps_pages m \<Longrightarrow> keeps_pages n \<Longrightarrow> keeps_pages (if b then m else n)"
  by simp

lemma visits_bind_first:
  assumes "visits u m" and "\<And>x. keeps_pages (f x)"
  shows "visits u (bind_io m f)"
  unfolding visits_def
proof
  fix w
  obtain a w1 where mw: "m w = (a, w1)" by (cases "m w")
  from assms(1) mw have h: "searched (history w1) = searched (history w) @ [u]" by (rule visitsD)
  show "searched (history (snd (bind_io m f w))) = searched (history w) @ [u]"
  proof (cases a)
    case (Inl e)
    with mw h show ?thesis by (simp add: bind_io_def)
  next
    case (Inr x)
    from assms(2) [of x] have "searched (history (snd (f x w1))) = searched (history w1)"
      by (simp add: keeps_pages_def)
    with mw Inr h show ?thesis by (simp add: bind_io_def)
  qed
qed

lemma visits_after_logger:
  assumes "visits u (f ())"
  shows "visits u (bind_io (logger l msg) f)"
  using assms by (simp add: visits_def bind_io_def logger_def log_line_def)

lemma visits_try_except:
  assumes "visits u m" and "\<And>e. keeps_pages (h e)"
  shows "visits u (try_except m h)"
  unfolding visits_def
proof
  fix w
  obtain a w1 where mw: "m w = (a, w1)" by (cases "m w")
  from assms(1) mw have v: "searched (history w1) = searched (history w) @ [u]" by (rule visitsD)
  show "searched (history (snd (try_except m h w))) = searched (history w) @ [u]"
  proof (cases a)
    case (Inr x)
    with mw v show ?thesis by (simp add: try_except_def)
  next
    case (Inl e)
    from assms(2) [of e] have "searched (history (snd (h e w1))) = searched (history w1)"
      by (simp add: keeps_pages_def)
    with mw Inl v show ?thesis by (simp add: try_except_def)
  qed
qed

lemma history_wait_loop: "history (snd (wait_loop start initial timeout w)) = history w"
proof (induction start initial timeout w rule: wait_loop.induct)
  case (1 start initial timeout w)
  let ?new = "filter (\<lambda>f. f \<notin> set initial) (top_level_names (fs w))"
  show ?case
  proof (cases "clock w - start < timeout * 1000")
    case False
    then show ?thesis by (subst wait_loop.simps) simp
  next
    case True
    show ?thesis
    proof (cases "?new = []")
      case e: True
      have "wait_loop start initial timeout w = wait_loop start initial timeout (advance 1000 w)"
        using True e by (subst wait_loop.simps) simp
      moreover have "history (snd (wait_loop start initial timeout (advance 1000 w)))
                       = history (advance 1000 w)"
        using True e by (intro "1.IH"(2) [OF True refl refl]) simp_all
      ultimately show ?thesis by simp
    next
      case ne: False
      show ?thesis
      proof (cases "\<not> endswith (hd ?new) ''.crdownload'' \<and> \<not> endswith (hd ?new) ''.tmp''")
        case c: True
        have "wait_loop start initial timeout w = (Inr (Some (hd ?new)), advance 2000 w)"
          using True ne c by (subst wait_loop.simps) (simp add: Let_def)
        then show ?thesis by simp
      next
        case c: False
        have "wait_loop start initial timeout w
                = wait_loop start initial timeout (advance 1000 (advance 2000 w))"
          using True ne c by (subst wait_loop.simps) (auto simp: Let_def)
        moreover have "history (snd (wait_loop start initial timeout (advance 1000 (advance 2000 w))))
                       = history (advance 1000 (advance 2000 w))"
          using True ne c by (intro "1.IH"(1) [OF True refl refl _ refl refl]) simp_all
        ultimately show ?thesis by simp
      qed
    qed
  qed
qed

lemma keeps_wait_for_download: "keeps_pages (wait_for_download initial timeout)"
  by (simp add: keeps_pages_def wait_for_download_def history_wait_loop)

lemma keeps_organize_download: "keeps_pages (organize_download filename i y)"
  by (auto simp: keeps_pages_def organize_download_def bind_io_def mkdir_parents_def rename_def
      return_def split: option.splits)

lemma testzip_from_world: "snd (testzip_from entries es w) = w"
  by (induction es) (simp_all add: return_def raise_def split: entry_check.splits)

lemma testzip_world: "snd (testzip es w) = w"
  by (simp add: testzip_def testzip_from_world)

lemma keeps_testzip: "keeps_pages (testzip es)"
  by (simp add: keeps_pages_def testzip_world)

lemma keeps_open_zip: "keeps_pages (open_zip p)"
  and keeps_stat_size: "keeps_pages (stat_size p)"
  by (simp_all add: keeps_pages_def open_zip_def stat_size_def
      split: option.splits archive.splits)

lemma keeps_try_except_bad_zip:
  assumes "keeps_pages m" and "keeps_pages h"
  shows "keeps_pages (try_except_bad_zip m h)"
  unfolding keeps_pages_def
proof
  fix w
  obtain a w1 where mw: "m w = (a, w1)" by (cases "m w")
  from assms(1) mw have k: "searched (history w1) = searched (history w)" by (rule keeps_pagesD)
  from assms(2) have kh: "searched (history (snd (h w1))) = searched (history w1)"
    by (simp add: keeps_pages_def)
  show "searched (history (snd (try_except_bad_zip m h w))) = searched (history w)"
  proof (cases a)
    case (Inr x)
    with mw k show ?thesis by (simp add: try_except_bad_zip_def)
  next
    case (Inl e)
    with mw k kh show ?thesis by (cases e) (simp_all add: try_except_bad_zip_def)
  qed
qed

lemmas keeps_intros = keeps_return keeps_raise keeps_logger keeps_log_path keeps_sleep
  keeps_random_delay keeps_get_download_files keeps_new_result keeps_path_string keeps_bind
  keeps_try_except keeps_if keeps_wait_for_download keeps_organize_download keeps_testzip
  keeps_open_zip keeps_stat_size keeps_try_except_bad_zip

lemma keeps_check_zip: "keeps_pages (check_zip p)"
  unfolding check_zip_def Let_def by (intro keeps_intros)

lemma keeps_read: "keeps_pages (\<lambda>w. return (g w) w)"
  and keeps_logger_read: "keeps_pages (\<lambda>w. logger l (g' w) w)"
  by (simp_all add: keeps_pages_def return_def logger_def log_line_def)

lemma keeps_case_option:
  "keeps_pages m \<Longrightarrow> (\<And>b. keeps_pages (f b)) \<Longrightarrow>
     keeps_pages (case x of None \<Rightarrow> m | Some b \<Rightarrow> f b)"
  by (cases x) simp_all

lemma keeps_verify_download: "keeps_pages (verify_download p)"
  unfolding verify_download_def
  by (intro keeps_intros keeps_read keeps_logger_read keeps_case_option keeps_check_zip)

lemma keeps_handle_download_popup: "keeps_pages (handle_download_popup i y)"
  unfolding handle_download_popup_def
  by (intro keeps_intros keeps_command keeps_verify_download) simp_all

lemma keeps_download_specific_year: "keeps_pages (download_specific_year i y)"
  unfolding download_specific_year_def
  by (intro keeps_intros keeps_command keeps_verify_download) simp_all

lemma keeps_click_matching: "keeps_pages (click_matching i ts)"
proof (induction ts)
  case Nil
  show ?case by (simp add: keeps_intros)
next
  case (Cons t ts)
  have "keeps_pages (bind_io (logger INFO (''Found matching INN: '' @ i)) (\<lambda>_.
        bind_io (command (Click (Entry t))) (\<lambda>_.
        bind_io (random_delay 2 4) (\<lambda>_.
        return True))))"
    by (intro keeps_intros keeps_command) simp_all
  with Cons show ?case by simp
qed

lemma visits_search_attempt: "visits (search_url i) (search_attempt i)"
  unfolding search_attempt_def
proof (rule visits_try_except)
  show "visits (search_url i)
     (bind_io (logger INFO (''Searching for INN: '' @ i)) (\<lambda>_.
        bind_io (command (Get (search_url i))) (\<lambda>_.
        bind_io (random_delay 2 4) (\<lambda>_.
        bind_io (command (UntilPresent ResultsItem)) (\<lambda>_.
        bind_io (command (FindElements InnEntries)) (\<lambda>inn_elements.
        click_matching i inn_elements))))))"
    by (intro visits_after_logger visits_bind_first visits_command keeps_intros keeps_command
        keeps_click_matching) simp_all
next
  fix e
  show "keeps_pages (case e of
          TimeoutException m \<Rightarrow>
            bind_io (logger ERROR (''Timeout waiting for search results for INN: '' @ i)) (\<lambda>_.
            return False)
        | _ \<Rightarrow>
            bind_io (logger ERROR (''Error searching for INN '' @ i @ '': '' @ str_exn e)) (\<lambda>_.
            return False))"
    by (cases e) (simp_all add: keeps_intros)
qed

lemma keeps_download_failed: "keeps_pages (download_failed i y rs e)"
  unfolding download_failed_def by (intro keeps_intros)

lemma keeps_download_reports: "keeps_pages (download_reports i y)"
  unfolding keeps_pages_def
proof
  fix w
  let ?prefix = "bind_io (command (UntilPresent ReportsWrapper)) (\<lambda>_.
           bind_io (command (UntilClickable DownloadAsTable)) (\<lambda>_.
           bind_io (command (Click DownloadAsTable)) (\<lambda>_.
           random_delay 1 2)))"
  have kp: "keeps_pages ?prefix" by (intro keeps_intros keeps_command) simp_all
  obtain a w1 where p: "?prefix w = (a, w1)" by (cases "?prefix w")
  from kp p have h1: "searched (history w1) = searched (history w)" by (rule keeps_pagesD)
  have kf: "searched (history (snd (download_failed i y' rs e v))) = searched (history v)"
    for y' rs e v
    using keeps_download_failed [of i y' rs e] by (simp add: keeps_pages_def)
  obtain b w2 where q: "handle_download_popup i y w1 = (b, w2)"
    by (cases "handle_download_popup i y w1")
  from keeps_handle_download_popup q have h2: "searched (history w2) = searched (history w1)"
    by (rule keeps_pagesD)
  obtain c w3 where r: "download_specific_year i ''2023'' w2 = (c, w3)"
    by (cases "download_specific_year i ''2023'' w2")
  from keeps_download_specific_year r have h3: "searched (history w3) = searched (history w2)"
    by (rule keeps_pagesD)
  show "searched (history (snd (download_reports i y w))) = searched (history w)"
    using p q r h1 h2 h3 kf
    by (simp add: download_reports_def Let_def split: sum.splits)
qed

lemma history_log_results [simp]: "history (log_results i rs w) = history w"
  by (induction rs arbitrary: w) (simp_all add: log_line_def)

lemma process_inn_pages:
  "searched (history (snd (process_inn k n i acc w))) = searched (history w) @ [search_url i]"
proof -
  let ?w0 = "log_line INFO (''Processing INN '' @ str_nat k @ ''/'' @ str_nat n @ '': '' @ i) w"
  obtain found w1 where s: "search_organization i ?w0 = (Inr found, w1)"
    using search_attempt_never_raises [of i ?w0] by (auto simp: search_organization_once)
  then have "search_attempt i ?w0 = (Inr found, w1)" by (simp add: search_organization_once)
  with visits_search_attempt
  have h1: "searched (history w1) = searched (history ?w0) @ [search_url i]" by (rule visitsD)
  have h0: "history ?w0 = history w" by (simp add: log_line_def)
  obtain c w2 where d: "download_reports i None w1 = (c, w2)"
    by (cases "download_reports i None w1")
  from keeps_download_reports d have h2: "searched (history w2) = searched (history w1)"
    by (rule keeps_pagesD)
  have hd: "history (snd (random_delay 5 10 v)) = history v" for v
    by (simp add: random_delay_def sleep_def Let_def)
  show ?thesis
    using s d h0 h1 h2 hd
    by (simp add: process_inn_def attempt_inn_def Let_def log_line_def split: sum.splits)
qed

lemma process_loop_pages:
  "searched (history (snd (process_loop k n inns acc w)))
     = searched (history w) @ map search_url inns"
proof (induction inns arbitrary: k acc w)
  case Nil
  show ?case by simp
next
  case (Cons i inns)
  obtain rs w' where p: "process_inn k n i acc w = (rs, w')" by (cases "process_inn k n i acc w")
  with process_inn_pages [of k n i acc w]
  have "searched (history w') = searched (history w) @ [search_url i]" by simp
  with Cons.IH [of "k + 1" rs w'] p show ?case by simp
qed

lemma strip_empty: "strip s = [] \<longleftrightarrow> list_all isspace s"
proof
  assume "list_all isspace s"
  then have "dropWhile isspace s = []" by (simp add: list_all_iff)
  then show "strip s = []" unfolding strip_def by (simp only: dropWhile.simps rev.simps)
next
  assume e: "strip s = []"
  show "list_all isspace s"
  proof (rule ccontr)
    assume "\<not> list_all isspace s"
    then have ne: "dropWhile isspace s \<noteq> []" by (simp add: list_all_iff)
    then have "\<not> isspace (hd (dropWhile isspace s))" by (rule hd_dropWhile)
    moreover from e have "\<forall>x \<in> set (dropWhile isspace s). isspace x"
      by (simp add: strip_def dropWhile_eq_Nil_conv)
    ultimately show False using ne by (metis hd_in_set)
  qed
qed

lemma read_inns_spec: "read_inns content = nonblank_stripped_lines content"
  by (simp add: read_inns_def nonblank_stripped_lines_def strip_empty)

lemma history_create_driver: "searched (history (snd (create_driver w))) = searched (history w)"
proof -
  have "keeps_pages create_driver"
    unfolding create_driver_def by (intro keeps_intros keeps_command) simp_all
  then show ?thesis by (simp add: keeps_pages_def)
qed

text \<open>
  Claim C9. When the input file does not exist, the batch runner logs an error and
  returns the empty list, without raising. When it exists, the identifiers are the
  lines that are not blank, stripped of the white space around them, in the order of
  the file, and (the browser having started) the searches of the run are for exactly
  these identifiers, in this order.
\<close>

theorem process_inns_identifiers:
  "(text_files w inns_file = None
      \<longrightarrow> process_inns inns_file w
          = (Inr [], w\<lparr>logged := logged w @ [(ERROR, ''INNs file not found: '' @ inns_file)]\<rparr>))
   \<and> (text_files w inns_file = Some content
      \<longrightarrow> read_inns content = nonblank_stripped_lines content
        \<and> (fst (create_driver
                  (log_line INFO (''Processing '' @ str_nat (length (read_inns content))
                                  @ '' INNs from '' @ inns_file) w)) = Inr ()
           \<longrightarrow> searched (history (snd (process_inns inns_file w)))
               = searched (history w) @ map search_url (nonblank_stripped_lines content)))"
proof (intro conjI impI)
  assume "text_files w inns_file = None"
  then show "process_inns inns_file w
          = (Inr [], w\<lparr>logged := logged w @ [(ERROR, ''INNs file not found: '' @ inns_file)]\<rparr>)"
    by (simp add: process_inns_def log_line_def)
next
  show "read_inns content = nonblank_stripped_lines content" by (rule read_inns_spec)
next
  let ?inns = "read_inns content"
  let ?w0 = "log_line INFO (''Processing '' @ str_nat (length ?inns) @ '' INNs from '' @ inns_file) w"
  assume t: "text_files w inns_file = Some content" and d: "fst (create_driver ?w0) = Inr ()"
  obtain w1 where c: "create_driver ?w0 = (Inr (), w1)" using d by (cases "create_driver ?w0") simp
  have h1: "searched (history w1) = searched (history w)"
    using history_create_driver [of ?w0] c by (simp add: log_line_def)
  obtain rs w2 where l: "process_loop 1 (length ?inns) ?inns [] w1 = (rs, w2)"
    by (cases "process_loop 1 (length ?inns) ?inns [] w1")
  have h2: "searched (history w2) = searched (history w1) @ map search_url ?inns"
    using process_loop_pages [of 1 "length ?inns" ?inns "[]" w1] l by simp
  obtain q w3 where k: "command Quit w2 = (q, w3)" by (cases "command Quit w2")
  have "keeps_pages (command Quit)" by (rule keeps_command) simp
  from this k have h3: "searched (history w3) = searched (history w2)" by (rule keeps_pagesD)
  have "process_inns inns_file w
          = get_driver (\<lambda>w1. case process_loop 1 (length ?inns) ?inns [] w1 of
                                  (all_results, w2) \<Rightarrow> (Inr all_results, w2)) ?w0"
    unfolding process_inns_def t by (simp only: option.case Let_def)
  then have "snd (process_inns inns_file w) = w3"
    using c l k by (simp add: get_driver_def split: sum.splits)
  with h1 h2 h3 show "searched (history (snd (process_inns inns_file w)))
               = searched (history w) @ map search_url (nonblank_stripped_lines content)"
    by (simp add: read_inns_spec)
qed

lemma inns_text_lines: "nonblank_stripped_lines inns_text = [''7707083893'', ''0000000000'']"
  by (simp add: nonblank_stripped_lines_def readlines_def inns_text_def strip_def isspace_def)

theorem process_inns_identifiers_witness:
  "text_files listed_world ''missing.txt'' = None
   \<and> fst (process_inns ''missing.txt'' listed_world) = Inr []
   \<and> logged (snd (process_inns ''missing.txt'' listed_world))
       = [(ERROR, ''INNs file not found: missing.txt'')]
   \<and> text_files listed_world ''inns.txt'' = Some inns_text
   \<and> read_inns inns_text = [''7707083893'', ''0000000000'']
   \<and> searched (history (snd (process_inns ''inns.txt'' listed_world)))
       = [''https://bo.nalog.gov.ru/search?query=7707083893'',
          ''https://bo.nalog.gov.ru/search?query=0000000000'']"
proof -
  have t: "text_files listed_world ''missing.txt'' = None"
    "text_files listed_world ''inns.txt'' = Some inns_text"
    by (simp_all add: listed_world_def empty_world_def)
  have d: "fst (create_driver
             (log_line INFO (''Processing '' @ str_nat (length (read_inns inns_text))
                             @ '' INNs from '' @ ''inns.txt'') listed_world)) = Inr ()"
    by (simp add: create_driver_def listed_world_def run_simps)
  have h: "history listed_world = []" "logged listed_world = []"
    by (simp_all add: listed_world_def empty_world_def)
  note A = process_inns_identifiers [of listed_world "''missing.txt''" inns_text]
  note B = process_inns_identifiers [of listed_world "''inns.txt''" inns_text]
  from A [THEN conjunct1] t(1)
  have a: "process_inns ''missing.txt'' listed_world
          = (Inr [], listed_world\<lparr>logged := logged listed_world
               @ [(ERROR, ''INNs file not found: '' @ ''missing.txt'')]\<rparr>)" by blast
  from B [THEN conjunct2] t(2) d
  have b: "read_inns inns_text = nonblank_stripped_lines inns_text"
    "searched (history (snd (process_inns ''inns.txt'' listed_world)))
       = searched (history listed_world) @ map search_url (nonblank_stripped_lines inns_text)"
    by blast+
  from a b t h show ?thesis by (simp add: inns_text_lines search_url_def)
qed


end
